theory Spec2Isabelle
  imports Complex_Main
begin

section \<open>JavaScript strings\<close>

text \<open>
  A JavaScript string is a sequence of 16-bit code units. A code unit is modelled as the
  integer of its value and a string as the list of its code units; \<open>js\<close> turns a
  literal of ASCII characters into such a string. The names of tools, the texts of log
  entries and the strings inside JSON values are kept as \<open>string\<close>: the model compares
  and concatenates them and never looks at their characters.
\<close>

type_synonym codeunit = int

type_synonym jsstring = "codeunit list"

definition js :: "string \<Rightarrow> jsstring" where
  "js s = map of_char s"

section \<open>Errors thrown by the server\<close>

text \<open>
  Every \<^verbatim>\<open>throw new Error(...)\<close> of the sources is a value of \<open>thrown\<close>; a function that
  can throw returns \<open>thrown + 'a\<close> with \<open>Inl\<close> for the raised error. Each constructor stands
  for one message template of the source and carries the values interpolated into it.
  \<open>Failure\<close> is an error raised by an external collaborator (the database driver, the
  schema library, a tool handler); it carries the text that
  \<^verbatim>\<open>error instanceof Error ? error.message : String(error)\<close> yields for it.
\<close>

datatype DatabaseMode = ReadOnly | ReadWrite

datatype thrown =
    QueryEmpty
  | OperationNotAllowed jsstring DatabaseMode
  | DangerousQueryPattern
  | MultipleStatements
  | WhereEmpty
  | DangerousWherePattern
  | UnbalancedWhereParens
  | UnbalancedWhereQuotes
  | ConditionEmpty
  | DangerousConditionPattern
  | UnbalancedConditionParens
  | IntervalEmpty
  | InvalidIntervalFormat jsstring
  | DangerousOrderByPattern
  | InvalidOrderByFormat
  | InvalidTimeout
  | RateLimitExceeded "int option"
  | ToolNotFound string
  | Failure string

section \<open>Rate limiter (utils/rate-limiter.ts)\<close>

text \<open>
  The class \<^verbatim>\<open>RateLimiter\<close> as a record of its four private fields. Timestamps are
  the integer milliseconds of \<^verbatim>\<open>Date.now()\<close>; the clock reading of each call is an
  argument of the model.
\<close>

record RateLimiter =
  requests :: "int list"
  maxRequests :: int
  windowMs :: int
  enabled :: bool

definition newRateLimiter :: "int \<Rightarrow> int \<Rightarrow> bool \<Rightarrow> RateLimiter" where
  "newRateLimiter maxReq win en =
     \<lparr>requests = [], maxRequests = maxReq, windowMs = win, enabled = en\<rparr>"

text \<open>\<^verbatim>\<open>Math.ceil(x / 1000)\<close> for an integer \<open>x\<close>.\<close>

definition ceil_div_1000 :: "int \<Rightarrow> int" where
  "ceil_div_1000 x = - ((- x) div 1000)"

text \<open>
  \<^verbatim>\<open>this.requests[0]\<close> is \<^verbatim>\<open>undefined\<close> on an empty array, and the arithmetic on it
  yields \<^verbatim>\<open>NaN\<close>: the retry-after value is then \<open>None\<close>.
\<close>

definition resetIn :: "int list \<Rightarrow> int \<Rightarrow> int \<Rightarrow> int option" where
  "resetIn reqs win now =
     (case reqs of
        [] \<Rightarrow> None
      | oldestRequest # _ \<Rightarrow> Some (ceil_div_1000 (oldestRequest + win - now)))"

text \<open>
  \<^verbatim>\<open>checkLimit()\<close>: the filtered array is assigned to \<^verbatim>\<open>this.requests\<close> before the
  comparison, so the eviction is kept also when the call throws.
\<close>

definition checkLimit :: "int \<Rightarrow> RateLimiter \<Rightarrow> (thrown + unit) \<times> RateLimiter" where
  "checkLimit now rl =
     (if \<not> enabled rl then (Inr (), rl)
      else
        let windowStart = now - windowMs rl;
            reqs = filter (\<lambda>timestamp. timestamp > windowStart) (requests rl)
        in if int (length reqs) \<ge> maxRequests rl
           then (Inl (RateLimitExceeded (resetIn reqs (windowMs rl) now)), rl\<lparr>requests := reqs\<rparr>)
           else (Inr (), rl\<lparr>requests := reqs @ [now]\<rparr>))"

definition reset :: "RateLimiter \<Rightarrow> RateLimiter" where
  "reset rl = rl\<lparr>requests := []\<rparr>"

text \<open>A sequence of \<^verbatim>\<open>checkLimit()\<close> calls at the given clock readings, with the outcome of each.\<close>

fun checkLimits :: "int list \<Rightarrow> RateLimiter \<Rightarrow> (thrown + unit) list \<times> RateLimiter" where
  "checkLimits [] rl = ([], rl)"
| "checkLimits (now # nows) rl =
     (let (r, rl') = checkLimit now rl;
          (rs, rl'') = checkLimits nows rl'
      in (r # rs, rl''))"

text \<open>The clock readings of the calls of such a sequence that were admitted.\<close>

fun admitted :: "int list \<Rightarrow> RateLimiter \<Rightarrow> int list" where
  "admitted [] rl = []"
| "admitted (now # nows) rl =
     (case checkLimit now rl of
        (Inl e, rl') \<Rightarrow> admitted nows rl'
      | (Inr u, rl') \<Rightarrow> now # admitted nows rl')"

text \<open>The timestamps of \<open>xs\<close> that lie in the window \<open>(s, s + W]\<close>.\<close>

definition in_window :: "int \<Rightarrow> int \<Rightarrow> int list \<Rightarrow> int list" where
  "in_window s W xs = filter (\<lambda>x. s < x \<and> x \<le> s + W) xs"

section \<open>Strings and regular expressions\<close>

text \<open>
  White space is what \<^verbatim>\<open>String.prototype.trim\<close> strips and what \<^verbatim>\<open>\s\<close> matches: the
  white-space and line-terminator code points of ECMAScript, all of them single code units.
  Digits and word characters are those of \<^verbatim>\<open>\d\<close> and \<^verbatim>\<open>\w\<close>.
\<close>

definition is_space :: "codeunit \<Rightarrow> bool" where
  "is_space c \<longleftrightarrow>
     c \<in> set [0x09, 0x0A, 0x0B, 0x0C, 0x0D, 0x20, 0xA0, 0x1680,
               0x2028, 0x2029, 0x202F, 0x205F, 0x3000, 0xFEFF]
     \<or> (0x2000 \<le> c \<and> c \<le> 0x200A)"

definition is_digit :: "codeunit \<Rightarrow> bool" where
  "is_digit c \<longleftrightarrow> 0x30 \<le> c \<and> c \<le> 0x39"

definition is_word :: "codeunit \<Rightarrow> bool" where
  "is_word c \<longleftrightarrow>
     is_digit c \<or> (0x41 \<le> c \<and> c \<le> 0x5A) \<or> c = 0x5F \<or> (0x61 \<le> c \<and> c \<le> 0x7A)"

text \<open>
  \<^verbatim>\<open>String.prototype.toUpperCase\<close> maps a string code point by code point, without regard
  to context or locale. A code unit below \<open>0x80\<close> is a code point of its own, and among
  these only the letters \<open>a\<close> to \<open>z\<close> change. What the runtime makes of a maximal run of
  code units from \<open>0x80\<close> on (the Unicode case mapping, which may change the length, and
  surrogate pairs) is the parameter \<open>other\<close> of the model; for instance it maps the run
  \<open>[0x17F]\<close> (long s) to \<open>S\<close> and \<open>[0xE9]\<close> to \<open>[0xC9]\<close>.
\<close>

definition asciiUpper :: "codeunit \<Rightarrow> codeunit" where
  "asciiUpper c = (if 0x61 \<le> c \<and> c \<le> 0x7A then c - 0x20 else c)"

fun upperRuns :: "(jsstring \<Rightarrow> jsstring) \<Rightarrow> jsstring \<Rightarrow> jsstring \<Rightarrow> jsstring" where
  "upperRuns other run [] = (if run = [] then [] else other run)"
| "upperRuns other run (c # cs) =
     (if c < 0x80
      then (if run = [] then [] else other run) @ asciiUpper c # upperRuns other [] cs
      else upperRuns other (run @ [c]) cs)"

definition toUpperCase :: "(jsstring \<Rightarrow> jsstring) \<Rightarrow> jsstring \<Rightarrow> jsstring" where
  "toUpperCase other s = upperRuns other [] s"

definition trim :: "jsstring \<Rightarrow> jsstring" where
  "trim s = rev (dropWhile is_space (rev (dropWhile is_space s)))"

text \<open>
  \<^verbatim>\<open>s.split(/\s+/)\<close>: the pieces between maximal runs of white space. A run at the start
  or at the end of \<open>s\<close> leaves an empty piece there, and the result is never empty.
\<close>

function split_ws :: "jsstring \<Rightarrow> jsstring list" where
  "split_ws [] = [[]]"
| "split_ws (c # cs) =
     (if is_space c then [] # split_ws (dropWhile is_space cs)
      else (case split_ws cs of
              [] \<Rightarrow> [[c]]
            | t # ts \<Rightarrow> (c # t) # ts))"
  by pat_completeness auto
termination
  by (relation "measure length") (auto simp: length_dropWhile_le less_Suc_eq_le)

text \<open>\<^verbatim>\<open>s.indexOf(c)\<close>, which is \<open>-1\<close> when \<open>c\<close> does not occur, and \<^verbatim>\<open>s.includes(c)\<close>.\<close>

fun indexFrom :: "codeunit \<Rightarrow> jsstring \<Rightarrow> nat \<Rightarrow> int" where
  "indexFrom c [] i = - 1"
| "indexFrom c (x # xs) i = (if x = c then int i else indexFrom c xs (Suc i))"

definition indexOf :: "codeunit \<Rightarrow> jsstring \<Rightarrow> int" where
  "indexOf c s = indexFrom c s 0"

definition includesChar :: "codeunit \<Rightarrow> jsstring \<Rightarrow> bool" where
  "includesChar c s \<longleftrightarrow> c \<in> set s"

text \<open>\<^verbatim>\<open>(s.match(/c/g) || []).length\<close> for a single character \<open>c\<close>.\<close>

definition countChar :: "codeunit \<Rightarrow> jsstring \<Rightarrow> nat" where
  "countChar c s = length (filter (\<lambda>x. x = c) s)"

text \<open>
  The regular expressions of the sources use literals, the classes \<^verbatim>\<open>\s\<close>, \<^verbatim>\<open>\w\<close>,
  \<^verbatim>\<open>\d\<close> and bracket sets, sequence, alternation, \<^verbatim>\<open>*\<close>, \<^verbatim>\<open>+\<close>, \<^verbatim>\<open>?\<close>, and the
  assertions \<^verbatim>\<open>\b\<close>, \<^verbatim>\<open>^\<close> and \<^verbatim>\<open>$\<close>. The flag \<^verbatim>\<open>i\<close> is the Boolean passed to the
  matcher. Under that flag (without \<^verbatim>\<open>u\<close>) two code units match when their
  canonicalizations are equal, and the canonicalization never maps a code unit from
  \<open>0x80\<close> on to one below: against the ASCII literals of the patterns this is the
  comparison of \<open>asciiUpper\<close>, and \<^verbatim>\<open>\w\<close> stays the ASCII class.
\<close>

datatype catom = Lit codeunit | ClsSpace | ClsWord | ClsDigit | AnyOf "catom list"

datatype re =
    Eps
  | Atom catom
  | Seq re re
  | Alt re re
  | Star re
  | Plus re
  | Opt re
  | WordBoundary
  | LineStart
  | LineEnd

fun atom_match :: "bool \<Rightarrow> catom \<Rightarrow> codeunit \<Rightarrow> bool" where
  "atom_match ci (Lit c) x = (if ci then asciiUpper x = asciiUpper c else x = c)"
| "atom_match ci ClsSpace x = is_space x"
| "atom_match ci ClsWord x = is_word x"
| "atom_match ci ClsDigit x = is_digit x"
| "atom_match ci (AnyOf as) x = list_ex (\<lambda>a. atom_match ci a x) as"

text \<open>
  A matcher state is the code unit before the current position (\<open>None\<close> at the start of
  the input) and the rest of the input. \<open>rmatch r ci st\<close> lists the states that a match of
  \<open>r\<close> beginning at \<open>st\<close> can end in. An iteration of \<^verbatim>\<open>*\<close> that consumes nothing is
  dropped, so the length of the rest bounds the number of iterations.
\<close>

type_synonym mstate = "codeunit option \<times> jsstring"

primrec star_iter :: "(mstate \<Rightarrow> mstate list) \<Rightarrow> nat \<Rightarrow> mstate \<Rightarrow> mstate list" where
  "star_iter f 0 st = [st]"
| "star_iter f (Suc n) st =
     st # concat (map (star_iter f n)
                    (filter (\<lambda>st'. length (snd st') < length (snd st)) (f st)))"

definition word_before :: "mstate \<Rightarrow> bool" where
  "word_before st = (case fst st of None \<Rightarrow> False | Some c \<Rightarrow> is_word c)"

definition word_after :: "mstate \<Rightarrow> bool" where
  "word_after st = (case snd st of [] \<Rightarrow> False | c # _ \<Rightarrow> is_word c)"

primrec rmatch :: "re \<Rightarrow> bool \<Rightarrow> mstate \<Rightarrow> mstate list" where
  "rmatch Eps ci = (\<lambda>st. [st])"
| "rmatch (Atom a) ci =
     (\<lambda>st. case snd st of
              [] \<Rightarrow> []
            | x # xs \<Rightarrow> if atom_match ci a x then [(Some x, xs)] else [])"
| "rmatch (Seq r1 r2) ci = (\<lambda>st. concat (map (rmatch r2 ci) (rmatch r1 ci st)))"
| "rmatch (Alt r1 r2) ci = (\<lambda>st. rmatch r1 ci st @ rmatch r2 ci st)"
| "rmatch (Star r) ci = (\<lambda>st. star_iter (rmatch r ci) (length (snd st)) st)"
| "rmatch (Plus r) ci =
     (\<lambda>st. concat (map (\<lambda>st'. star_iter (rmatch r ci) (length (snd st')) st')
                      (rmatch r ci st)))"
| "rmatch (Opt r) ci = (\<lambda>st. st # rmatch r ci st)"
| "rmatch WordBoundary ci = (\<lambda>st. if word_before st \<noteq> word_after st then [st] else [])"
| "rmatch LineStart ci = (\<lambda>st. if fst st = None then [st] else [])"
| "rmatch LineEnd ci = (\<lambda>st. if snd st = [] then [st] else [])"

text \<open>
  \<^verbatim>\<open>pattern.test(s)\<close> for a pattern without the \<^verbatim>\<open>g\<close> and \<^verbatim>\<open>y\<close> flags: a match may begin
  at any index of \<open>s\<close>, the end included.
\<close>

fun search :: "re \<Rightarrow> bool \<Rightarrow> codeunit option \<Rightarrow> jsstring \<Rightarrow> bool" where
  "search r ci prev [] = (rmatch r ci (prev, []) \<noteq> [])"
| "search r ci prev (c # cs) = (rmatch r ci (prev, c # cs) \<noteq> [] \<or> search r ci (Some c) cs)"

record regex =
  pattern :: re
  ignoreCase :: bool

definition test :: "regex \<Rightarrow> jsstring \<Rightarrow> bool" where
  "test p s = search (pattern p) (ignoreCase p) None s"

definition Str :: "string \<Rightarrow> re" where
  "Str s = foldr (\<lambda>c r. Seq (Atom (Lit (of_char c))) r) s Eps"

definition seqs :: "re list \<Rightarrow> re" where
  "seqs rs = foldr Seq rs Eps"

definition alts :: "re \<Rightarrow> re list \<Rightarrow> re" where
  "alts r rs = foldl Alt r rs"

section \<open>Sanitizer (utils/sanitize.ts)\<close>

definition ALLOWED_READ_ONLY_OPERATIONS :: "jsstring list" where
  "ALLOWED_READ_ONLY_OPERATIONS = map js [''SELECT'', ''EXPLAIN'', ''WITH'']"

definition ALLOWED_READ_WRITE_OPERATIONS :: "jsstring list" where
  "ALLOWED_READ_WRITE_OPERATIONS =
     map js
     [''SELECT'', ''INSERT'', ''UPDATE'', ''DELETE'',
      ''CREATE'', ''ALTER'', ''DROP'', ''TRUNCATE'',
      ''VACUUM'', ''ANALYZE'', ''REINDEX'',
      ''EXPLAIN'', ''WITH'']"

definition after_semicolon :: "re list \<Rightarrow> re" where
  "after_semicolon rs = seqs ([Str '';'', Star (Atom ClsSpace)] @ rs)"

definition union_select :: re where
  "union_select =
     seqs [Str ''UNION'', Plus (Atom ClsSpace),
           Opt (seqs [Str ''ALL'', Plus (Atom ClsSpace)]), Str ''SELECT'']"

definition DANGEROUS_PATTERNS :: "regex list" where
  "DANGEROUS_PATTERNS =
     [\<lparr>pattern = after_semicolon [Str ''DROP'', WordBoundary], ignoreCase = True\<rparr>,
      \<lparr>pattern = after_semicolon [Str ''DELETE'', Plus (Atom ClsSpace), Str ''FROM'', WordBoundary],
       ignoreCase = True\<rparr>,
      \<lparr>pattern = after_semicolon [Str ''TRUNCATE'', WordBoundary], ignoreCase = True\<rparr>,
      \<lparr>pattern = after_semicolon [Str ''ALTER'', WordBoundary], ignoreCase = True\<rparr>,
      \<lparr>pattern = after_semicolon [Str ''INSERT'', WordBoundary], ignoreCase = True\<rparr>,
      \<lparr>pattern = after_semicolon [Str ''UPDATE'', WordBoundary], ignoreCase = True\<rparr>,
      \<lparr>pattern = after_semicolon [Str ''CREATE'', WordBoundary], ignoreCase = True\<rparr>,
      \<lparr>pattern = after_semicolon [Str ''GRANT'', WordBoundary], ignoreCase = True\<rparr>,
      \<lparr>pattern = after_semicolon [Str ''REVOKE'', WordBoundary], ignoreCase = True\<rparr>,
      \<lparr>pattern = Str ''--'', ignoreCase = False\<rparr>,
      \<lparr>pattern = Str ''/*'', ignoreCase = False\<rparr>,
      \<lparr>pattern = Str ''*/'', ignoreCase = False\<rparr>,
      \<lparr>pattern = after_semicolon [Str ''EXEC'', WordBoundary], ignoreCase = True\<rparr>,
      \<lparr>pattern = after_semicolon [Str ''EXECUTE'', WordBoundary], ignoreCase = True\<rparr>,
      \<lparr>pattern = Str ''xp_'', ignoreCase = True\<rparr>,
      \<lparr>pattern = union_select, ignoreCase = True\<rparr>]"

definition WHERE_DANGEROUS_PATTERNS :: "regex list" where
  "WHERE_DANGEROUS_PATTERNS =
     [\<lparr>pattern = after_semicolon [Atom ClsWord], ignoreCase = True\<rparr>,
      \<lparr>pattern = Str ''--'', ignoreCase = False\<rparr>,
      \<lparr>pattern = Str ''/*'', ignoreCase = False\<rparr>,
      \<lparr>pattern = Str ''*/'', ignoreCase = False\<rparr>,
      \<lparr>pattern = union_select, ignoreCase = True\<rparr>,
      \<lparr>pattern = seqs [Str ''INTO'', Plus (Atom ClsSpace),
                       Alt (Str ''OUT'') (Str ''DUMP''), Str ''FILE''],
       ignoreCase = True\<rparr>,
      \<lparr>pattern = seqs [Str ''LOAD_FILE'', Star (Atom ClsSpace), Str ''(''],
       ignoreCase = True\<rparr>]"

definition allowedOps :: "DatabaseMode \<Rightarrow> jsstring list" where
  "allowedOps mode =
     (if mode = ReadOnly then ALLOWED_READ_ONLY_OPERATIONS else ALLOWED_READ_WRITE_OPERATIONS)"

text \<open>The last check of \<^verbatim>\<open>sanitizeQuery\<close>, on the trimmed query.\<close>

definition multiple_statements :: "jsstring \<Rightarrow> bool" where
  "multiple_statements trimmedQuery \<longleftrightarrow>
     includesChar (of_char CHR '';'') trimmedQuery
     \<and> indexOf (of_char CHR '';'') trimmedQuery \<noteq> int (length trimmedQuery) - 1"

definition sanitizeQuery ::
  "(jsstring \<Rightarrow> jsstring) \<Rightarrow> jsstring \<Rightarrow> DatabaseMode \<Rightarrow> thrown + unit"
where
  "sanitizeQuery other query mode =
     (let trimmedQuery = trim query in
      if trimmedQuery = [] then Inl QueryEmpty
      else
        (case split_ws trimmedQuery of
           [] \<Rightarrow> Inl (Failure ''TypeError'')
         | token # _ \<Rightarrow>
             let operation = toUpperCase other token in
             if operation \<notin> set (allowedOps mode) then Inl (OperationNotAllowed operation mode)
             else if list_ex (\<lambda>p. test p trimmedQuery) DANGEROUS_PATTERNS
               then Inl DangerousQueryPattern
             else if multiple_statements trimmedQuery then Inl MultipleStatements
             else Inr ()))"

definition validateUserWhereClause :: "jsstring \<Rightarrow> thrown + unit" where
  "validateUserWhereClause where' =
     (if where' = [] \<or> trim where' = [] then Inl WhereEmpty
      else
        let trimmed = trim where' in
        if list_ex (\<lambda>p. test p trimmed) WHERE_DANGEROUS_PATTERNS then Inl DangerousWherePattern
        else if countChar (of_char CHR ''('') trimmed \<noteq> countChar (of_char CHR '')'') trimmed
          then Inl UnbalancedWhereParens
        else if countChar (of_char (CHR 0x27)) trimmed mod 2 \<noteq> 0 then Inl UnbalancedWhereQuotes
        else Inr ())"

definition validateCondition :: "jsstring \<Rightarrow> thrown + unit" where
  "validateCondition condition =
     (if condition = [] \<or> trim condition = [] then Inl ConditionEmpty
      else
        let trimmed = trim condition in
        if list_ex (\<lambda>p. test p trimmed) WHERE_DANGEROUS_PATTERNS
          then Inl DangerousConditionPattern
        else if countChar (of_char CHR ''('') trimmed \<noteq> countChar (of_char CHR '')'') trimmed
          then Inl UnbalancedConditionParens
        else Inr ())"

definition validIntervalPattern :: regex where
  "validIntervalPattern =
     \<lparr>pattern = seqs [LineStart, Plus (Atom ClsDigit), Plus (Atom ClsSpace),
                      alts (Str ''second'')
                        [Str ''minute'', Str ''hour'', Str ''day'', Str ''week'',
                         Str ''month'', Str ''year''],
                      Opt (Str ''s''), LineEnd],
      ignoreCase = True\<rparr>"

definition validateInterval :: "jsstring \<Rightarrow> thrown + unit" where
  "validateInterval interval =
     (if interval = [] \<or> trim interval = [] then Inl IntervalEmpty
      else if \<not> test validIntervalPattern (trim interval)
        then Inl (InvalidIntervalFormat interval)
      else Inr ())"

definition order_item :: re where
  "order_item =
     seqs [Plus (Atom (AnyOf [ClsWord, Lit (of_char (CHR 0x22))])),
           Opt (seqs [Plus (Atom ClsSpace), Alt (Str ''ASC'') (Str ''DESC'')])]"

definition validOrderPattern :: regex where
  "validOrderPattern =
     \<lparr>pattern = seqs [LineStart, order_item,
                      Star (seqs [Str '','', Star (Atom ClsSpace), order_item]), LineEnd],
      ignoreCase = True\<rparr>"

definition validateOrderBy :: "jsstring \<Rightarrow> thrown + unit" where
  "validateOrderBy orderBy =
     (if orderBy = [] \<or> trim orderBy = [] then Inr ()
      else
        let trimmed = trim orderBy in
        if list_ex (\<lambda>p. test p trimmed) WHERE_DANGEROUS_PATTERNS
          then Inl DangerousOrderByPattern
        else if \<not> test validOrderPattern trimmed then Inl InvalidOrderByFormat
        else Inr ())"

text \<open>
  The leading keyword in the words of the specification: the first white-space-delimited
  token of the trimmed query, in upper case. It is compared below with what
  \<open>sanitizeQuery\<close> computes by \<^verbatim>\<open>trimmedQuery.split(/\s+/)[0].toUpperCase()\<close>.
\<close>

definition leading_keyword :: "(jsstring \<Rightarrow> jsstring) \<Rightarrow> jsstring \<Rightarrow> jsstring" where
  "leading_keyword other query =
     toUpperCase other (takeWhile (\<lambda>c. \<not> is_space c) (dropWhile is_space query))"

section \<open>JavaScript numbers and JSON values\<close>

text \<open>
  A JavaScript \<^verbatim>\<open>number\<close> is a finite value, \<^verbatim>\<open>NaN\<close> or one of the two infinities. The
  finite values are modelled as rationals: the sources only compare them, take their floor
  and truncate them, and rounding plays no part in that.
\<close>

datatype jsnum = Finite rat | NaN | PosInfinity | NegInfinity

datatype json =
    JNull
  | JBool bool
  | JNum jsnum
  | JStr string
  | JArr "json list"
  | JObj "(string \<times> json) list"

text \<open>Truthiness of a number: \<^verbatim>\<open>0\<close> and \<^verbatim>\<open>NaN\<close> are falsy.\<close>

fun truthy :: "jsnum \<Rightarrow> bool" where
  "truthy (Finite x) = (x \<noteq> 0)"
| "truthy NaN = False"
| "truthy PosInfinity = True"
| "truthy NegInfinity = True"

text \<open>\<^verbatim>\<open>a || b\<close> where \<open>a\<close> is an optional number (\<open>None\<close> is \<^verbatim>\<open>undefined\<close>).\<close>

fun or_else :: "jsnum option \<Rightarrow> jsnum \<Rightarrow> jsnum" where
  "or_else None b = b"
| "or_else (Some a) b = (if truthy a then a else b)"

text \<open>\<^verbatim>\<open>Number.isFinite(x)\<close> and the comparison \<^verbatim>\<open>a < b\<close>, false whenever \<^verbatim>\<open>NaN\<close> takes part.\<close>

fun isFinite :: "jsnum \<Rightarrow> bool" where
  "isFinite (Finite x) = True"
| "isFinite NaN = False"
| "isFinite PosInfinity = False"
| "isFinite NegInfinity = False"

fun js_less :: "jsnum \<Rightarrow> jsnum \<Rightarrow> bool" where
  "js_less NaN b = False"
| "js_less a NaN = False"
| "js_less (Finite x) (Finite y) = (x < y)"
| "js_less (Finite x) PosInfinity = True"
| "js_less (Finite x) NegInfinity = False"
| "js_less PosInfinity b = False"
| "js_less NegInfinity (Finite y) = True"
| "js_less NegInfinity PosInfinity = True"
| "js_less NegInfinity NegInfinity = False"

text \<open>
  \<^verbatim>\<open>rows.slice(0, end)\<close>: \<open>end\<close> is converted by \<^verbatim>\<open>ToIntegerOrInfinity\<close> (\<^verbatim>\<open>NaN\<close> becomes
  \<open>0\<close>, a finite value is truncated towards zero); a negative end counts from the end of
  the array.
\<close>

definition toInteger :: "rat \<Rightarrow> int" where
  "toInteger x = (if 0 \<le> x then \<lfloor>x\<rfloor> else \<lceil>x\<rceil>)"

fun slice0 :: "'a list \<Rightarrow> jsnum \<Rightarrow> 'a list" where
  "slice0 xs NaN = []"
| "slice0 xs PosInfinity = xs"
| "slice0 xs NegInfinity = []"
| "slice0 xs (Finite e) =
     (let relativeEnd = toInteger e;
          len = int (length xs);
          final = (if relativeEnd < 0 then max (len + relativeEnd) 0 else min relativeEnd len)
      in take (nat final) xs)"

text \<open>
  The functions of the JavaScript runtime that the model takes as parameters: the upper-case
  mapping of runs of code units from \<open>0x80\<close> on (see \<open>toUpperCase\<close>),
  \<^verbatim>\<open>JSON.stringify(value, null, 2)\<close>, and the message text of a thrown value
  (\<^verbatim>\<open>error instanceof Error ? error.message : String(error)\<close>).
\<close>

record Runtime =
  upperNonAscii :: "jsstring \<Rightarrow> jsstring"
  stringify :: "json \<Rightarrow> string"
  messageOf :: "thrown \<Rightarrow> string"

section \<open>Query execution (utils/database.ts)\<close>

text \<open>
  Of \<^verbatim>\<open>ServerConfig\<close> the fields read by the modelled functions are kept. A
  \<^verbatim>\<open>QueryResult\<close> of the driver is its \<^verbatim>\<open>rows\<close> and its \<^verbatim>\<open>rowCount\<close>
  (\<^verbatim>\<open>number | null\<close>).
\<close>

record ServerConfig =
  mode :: DatabaseMode
  queryTimeout :: jsnum
  maxResultRows :: jsnum
  enableRateLimit :: bool
  rateLimitMaxRequests :: int
  rateLimitWindowMs :: int

record QueryOptions =
  timeout :: "jsnum option"
  maxRows :: "jsnum option"

record QueryParams =
  query :: jsstring
  params :: "json list"
  options :: QueryOptions

record QueryResult =
  rows :: "json list"
  rowCount :: "jsnum option"

text \<open>
  What is sent over a pooled client: the \<^verbatim>\<open>SET statement_timeout = n\<close> statement with
  \<open>n = Math.floor(timeout)\<close>, and the parameterized user statement.
\<close>

datatype statement =
    SetStatementTimeout int
  | Statement jsstring "json list"

text \<open>
  The pool and the database are the environment of a call: \<open>connectError\<close> is the error
  with which \<^verbatim>\<open>pool.connect()\<close> rejects (\<open>None\<close> when it yields a client), and
  \<open>runStatement\<close> is the outcome of \<^verbatim>\<open>client.query\<close> for each statement.
\<close>

record Driver =
  connectError :: "thrown option"
  runStatement :: "statement \<Rightarrow> thrown + QueryResult"

datatype LogLevel = LevelDebug | LevelInfo | LevelWarn | LevelError

record LogEntry =
  level :: LogLevel
  tool :: string
  message :: string

text \<open>
  The observable state around a call: how many clients the pool has handed out and how
  many were released, the statements sent to the database, and the calls made to the
  logger, each in order (the structured data of a log call is left out).
\<close>

record World =
  acquired :: nat
  released :: nat
  statements :: "statement list"
  logs :: "LogEntry list"

definition checkedOut :: "World \<Rightarrow> int" where
  "checkedOut w = int (acquired w) - int (released w)"

definition logCall :: "LogLevel \<Rightarrow> string \<Rightarrow> string \<Rightarrow> World \<Rightarrow> World" where
  "logCall lv t m w = w\<lparr>logs := logs w @ [\<lparr>level = lv, tool = t, message = m\<rparr>]\<rparr>"

definition clientQuery :: "Driver \<Rightarrow> statement \<Rightarrow> World \<Rightarrow> (thrown + QueryResult) \<times> World" where
  "clientQuery drv s w = (runStatement drv s, w\<lparr>statements := statements w @ [s]\<rparr>)"

definition effectiveTimeout :: "ServerConfig \<Rightarrow> QueryOptions \<Rightarrow> jsnum" where
  "effectiveTimeout config opts = or_else (timeout opts) (queryTimeout config)"

definition effectiveMaxRows :: "ServerConfig \<Rightarrow> QueryOptions \<Rightarrow> jsnum" where
  "effectiveMaxRows config opts = or_else (maxRows opts) (maxResultRows config)"

text \<open>
  A valid timeout in the words of the specification: a finite non-negative number.
\<close>

fun validTimeout :: "jsnum \<Rightarrow> bool" where
  "validTimeout (Finite t) = (0 \<le> t)"
| "validTimeout NaN = False"
| "validTimeout PosInfinity = False"
| "validTimeout NegInfinity = False"

text \<open>
  The row cap of \<^verbatim>\<open>executeQuery\<close>:
  \<^verbatim>\<open>if (result.rowCount && result.rowCount > maxRows) { warn; slice; rowCount = maxRows }\<close>.
\<close>

definition exceedsMaxRows :: "QueryResult \<Rightarrow> jsnum \<Rightarrow> bool" where
  "exceedsMaxRows result maxRows' =
     (case rowCount result of
        None \<Rightarrow> False
      | Some n \<Rightarrow> truthy n \<and> js_less maxRows' n)"

definition capRows :: "jsnum \<Rightarrow> QueryResult \<Rightarrow> World \<Rightarrow> QueryResult \<times> World" where
  "capRows maxRows' result w =
     (if exceedsMaxRows result maxRows'
      then (result\<lparr>rows := slice0 (rows result) maxRows', rowCount := Some maxRows'\<rparr>,
            logCall LevelWarn ''query'' ''Result set exceeds max rows'' w)
      else (result, w))"

text \<open>
  The body of the \<^verbatim>\<open>try\<close> block after \<^verbatim>\<open>pool.connect()\<close> has yielded a client.
\<close>

definition runOnClient ::
  "Driver \<Rightarrow> jsstring \<Rightarrow> json list \<Rightarrow> jsnum \<Rightarrow> jsnum \<Rightarrow> World
     \<Rightarrow> (thrown + QueryResult) \<times> World"
where
  "runOnClient drv q ps timeout' maxRows' w =
     (if (if isFinite timeout' then js_less timeout' (Finite 0) else True)
      then (Inl InvalidTimeout, w)
      else
        (case timeout' of
           Finite t \<Rightarrow>
             (case clientQuery drv (SetStatementTimeout \<lfloor>t\<rfloor>) w of
                (Inl e, w1) \<Rightarrow> (Inl e, w1)
              | (Inr _, w1) \<Rightarrow>
                  (case clientQuery drv (Statement q ps) w1 of
                     (Inl e, w2) \<Rightarrow> (Inl e, w2)
                   | (Inr result, w2) \<Rightarrow>
                       let (result', w3) = capRows maxRows' result w2
                       in (Inr result',
                           logCall LevelInfo ''query'' ''Query executed successfully'' w3)))
         | _ \<Rightarrow> (Inl InvalidTimeout, w)))"

text \<open>
  \<^verbatim>\<open>executeQuery\<close>. The sanitizer runs before the \<^verbatim>\<open>try\<close>; the \<^verbatim>\<open>catch\<close> logs and
  rethrows; the \<^verbatim>\<open>finally\<close> releases the client when one was obtained.
\<close>

definition executeQuery ::
  "Runtime \<Rightarrow> ServerConfig \<Rightarrow> Driver \<Rightarrow> QueryParams \<Rightarrow> World
     \<Rightarrow> (thrown + QueryResult) \<times> World"
where
  "executeQuery rt config drv p w =
     (case sanitizeQuery (upperNonAscii rt) (query p) (mode config) of
        Inl e \<Rightarrow> (Inl e, w)
      | Inr _ \<Rightarrow>
          let timeout' = effectiveTimeout config (options p);
              maxRows' = effectiveMaxRows config (options p);
              w0 = logCall LevelDebug ''query'' ''Executing query'' w
          in (case connectError drv of
                Some e \<Rightarrow> (Inl e, logCall LevelError ''query'' ''Query execution failed'' w0)
              | None \<Rightarrow>
                  let w1 = w0\<lparr>acquired := Suc (acquired w0)\<rparr>;
                      (r, w2) = runOnClient drv (query p) (params p) timeout' maxRows' w1;
                      w3 = (case r of
                              Inl e \<Rightarrow> logCall LevelError ''query'' ''Query execution failed'' w2
                            | Inr _ \<Rightarrow> w2)
                  in (r, w3\<lparr>released := Suc (released w3)\<rparr>)))"

text \<open>The number of \<^verbatim>\<open>logger.warn\<close> calls made so far.\<close>

definition warnings :: "World \<Rightarrow> nat" where
  "warnings w = length (filter (\<lambda>e. level e = LevelWarn) (logs w))"

section \<open>Tool registry and dispatcher (tools/index.ts, server/setup.ts)\<close>

text \<open>
  The schema kinds that \<^verbatim>\<open>convertZodType\<close> tells apart by \<^verbatim>\<open>_def.typeName\<close>; every other
  kind (enum, union, any, record, effects) is \<open>ZodOther\<close> with its type name. A
  \<open>ZodDefault\<close> carries its \<^verbatim>\<open>_def.defaultValue\<close>.
\<close>

datatype zod =
    ZodString
  | ZodNumber
  | ZodBoolean
  | ZodArray zod
  | ZodOptional zod
  | ZodDefault zod json
  | ZodOther string

text \<open>\<^verbatim>\<open>field._def?.defaultValue\<close>: present on a \<open>ZodDefault\<close> only.\<close>

fun defaultValue :: "zod \<Rightarrow> json option" where
  "defaultValue (ZodDefault inner d) = Some d"
| "defaultValue ZodString = None"
| "defaultValue ZodNumber = None"
| "defaultValue ZodBoolean = None"
| "defaultValue (ZodArray t) = None"
| "defaultValue (ZodOptional t) = None"
| "defaultValue (ZodOther n) = None"

text \<open>
  Whether the schema library accepts a missing value for a field, for the kinds modelled
  above (\<open>None\<close> for the kinds that are not): an optional field and a field with a default
  do, the primitive kinds and arrays do not. This is the behaviour of the library, not of
  the repository's code.
\<close>

fun acceptsMissing :: "zod \<Rightarrow> bool option" where
  "acceptsMissing (ZodOptional t) = Some True"
| "acceptsMissing (ZodDefault t d) = Some True"
| "acceptsMissing ZodString = Some False"
| "acceptsMissing ZodNumber = Some False"
| "acceptsMissing ZodBoolean = Some False"
| "acceptsMissing (ZodArray t) = Some False"
| "acceptsMissing (ZodOther n) = None"

text \<open>
  The objects built by \<^verbatim>\<open>convertZodType\<close>: a \<^verbatim>\<open>type\<close>, \<^verbatim>\<open>items\<close> for an array, and
  \<^verbatim>\<open>default\<close> when one was assigned.
\<close>

datatype PropertySchema =
  PropertySchema (typeOf: string) (items: "PropertySchema option") (defaultOf: "json option")

fun setDefault :: "PropertySchema \<Rightarrow> json \<Rightarrow> PropertySchema" where
  "setDefault (PropertySchema t i d) v = PropertySchema t i (Some v)"

fun convertZodType :: "zod \<Rightarrow> PropertySchema" where
  "convertZodType ZodString = PropertySchema ''string'' None None"
| "convertZodType ZodNumber = PropertySchema ''number'' None None"
| "convertZodType ZodBoolean = PropertySchema ''boolean'' None None"
| "convertZodType (ZodArray t) = PropertySchema ''array'' (Some (convertZodType t)) None"
| "convertZodType (ZodOptional innerType) = convertZodType innerType"
| "convertZodType (ZodDefault innerType d) = setDefault (convertZodType innerType) d"
| "convertZodType (ZodOther n) = PropertySchema ''string'' None None"

record InputSchema =
  schemaType :: string
  properties :: "(string \<times> PropertySchema) list"
  required :: "string list option"

text \<open>
  The loop of \<^verbatim>\<open>zodToJsonSchema\<close> over \<^verbatim>\<open>Object.entries(shape)\<close>, with the two
  accumulators \<^verbatim>\<open>properties\<close> and \<^verbatim>\<open>required\<close>. The shape of an object schema is the
  list of its entries, in order, with distinct keys.
\<close>

fun collectFields ::
  "(string \<times> zod) list \<Rightarrow> (string \<times> PropertySchema) list \<times> string list
     \<Rightarrow> (string \<times> PropertySchema) list \<times> string list"
where
  "collectFields [] acc = acc"
| "collectFields ((key, field) # shape) (props, req) =
     collectFields shape
       (props @ [(key, convertZodType field)],
        if defaultValue field = None then req @ [key] else req)"

definition zodToJsonSchema :: "(string \<times> zod) list \<Rightarrow> InputSchema" where
  "zodToJsonSchema shape =
     (let (props, req) = collectFields shape ([], [])
      in \<lparr>schemaType = ''object'', properties = props,
          required = (if length req > 0 then Some req else None)\<rparr>)"

text \<open>
  The keys of the \<^verbatim>\<open>required\<close> array of an input schema, none when it is
  \<^verbatim>\<open>undefined\<close>.
\<close>

definition requiredKeys :: "InputSchema \<Rightarrow> string list" where
  "requiredKeys s = (case required s of None \<Rightarrow> [] | Some ks \<Rightarrow> ks)"

text \<open>
  A \<^verbatim>\<open>ToolDefinition\<close>: the shape of its object schema, the behaviour of
  \<^verbatim>\<open>schema.parse\<close> on the raw arguments, and the outcome of the handler on validated
  arguments. The registry \<^verbatim>\<open>tools\<close> is the list of its entries.
\<close>

record ToolDefinition =
  schema :: "(string \<times> zod) list"
  parse :: "json \<Rightarrow> thrown + json"
  handler :: "json \<Rightarrow> thrown + json"

type_synonym registry = "(string \<times> ToolDefinition) list"

definition getToolNames :: "registry \<Rightarrow> string list" where
  "getToolNames tools = map fst tools"

definition getTool :: "registry \<Rightarrow> string \<Rightarrow> ToolDefinition option" where
  "getTool tools name = map_of tools name"

text \<open>The catalog of the \<^verbatim>\<open>ListTools\<close> handler: name and input schema of every tool.\<close>

definition listTools :: "registry \<Rightarrow> (string \<times> InputSchema) list" where
  "listTools tools = map (\<lambda>(name, t). (name, zodToJsonSchema (schema t))) tools"

text \<open>
  The state of the server between invocations is its rate limiter. To state the order of
  the operations of an invocation, the model also records each operation as it begins
  (\<open>steps\<close>) and each call to the logger (\<open>entries\<close>).
\<close>

datatype step = RateCheck | Lookup | Validate | Execute

record Server =
  limiter :: RateLimiter
  steps :: "step list"
  entries :: "LogEntry list"

definition createMCPServer :: "ServerConfig \<Rightarrow> Server" where
  "createMCPServer config =
     \<lparr>limiter = newRateLimiter (rateLimitMaxRequests config) (rateLimitWindowMs config)
                  (enableRateLimit config),
      steps = [], entries = []\<rparr>"

definition begin_step :: "step \<Rightarrow> Server \<Rightarrow> Server" where
  "begin_step s srv = srv\<lparr>steps := steps srv @ [s]\<rparr>"

definition logger :: "LogLevel \<Rightarrow> string \<Rightarrow> string \<Rightarrow> Server \<Rightarrow> Server" where
  "logger lv t m srv = srv\<lparr>entries := entries srv @ [\<lparr>level = lv, tool = t, message = m\<rparr>]\<rparr>"

definition executeTool ::
  "registry \<Rightarrow> string \<Rightarrow> json \<Rightarrow> Server \<Rightarrow> (thrown + json) \<times> Server"
where
  "executeTool tools name args srv =
     (let srv1 = begin_step Lookup srv in
      case getTool tools name of
        None \<Rightarrow> (Inl (ToolNotFound name), srv1)
      | Some t \<Rightarrow>
          let srv2 = begin_step Validate srv1 in
          (case parse t args of
             Inl e \<Rightarrow> (Inl e, srv2)
           | Inr validatedArgs \<Rightarrow>
               let srv3 = logger LevelInfo ''tool'' (''Executing tool: '' @ name) srv2;
                   srv4 = begin_step Execute srv3
               in (case handler t validatedArgs of
                     Inr result \<Rightarrow>
                       (Inr result,
                        logger LevelInfo ''tool'' (''Tool '' @ name @ '' completed successfully'') srv4)
                   | Inl e \<Rightarrow>
                       (Inl e, logger LevelError ''tool'' (''Tool '' @ name @ '' failed'') srv4))))"

text \<open>
  The response envelope, built with the runtime's \<open>stringify\<close> and \<open>messageOf\<close>.
\<close>

record TextContent =
  contentType :: string
  contentText :: string

record CallToolResult =
  content :: "TextContent list"
  isError :: "bool option"

definition successResult :: "Runtime \<Rightarrow> json \<Rightarrow> CallToolResult" where
  "successResult rt result =
     \<lparr>content = [\<lparr>contentType = ''text'', contentText = stringify rt result\<rparr>], isError = None\<rparr>"

definition errorResult :: "Runtime \<Rightarrow> thrown \<Rightarrow> string \<Rightarrow> CallToolResult" where
  "errorResult rt error name =
     \<lparr>content = [\<lparr>contentType = ''text'',
                   contentText = stringify rt
                            (JObj [(''error'', JStr (messageOf rt error)), (''tool'', JStr name)])\<rparr>],
      isError = Some True\<rparr>"

text \<open>\<^verbatim>\<open>args || {}\<close> for the optional arguments of a request.\<close>

definition argsOrEmpty :: "json option \<Rightarrow> json" where
  "argsOrEmpty args = (case args of None \<Rightarrow> JObj [] | Some a \<Rightarrow> a)"

text \<open>
  The \<^verbatim>\<open>CallTool\<close> request handler of \<^verbatim>\<open>createMCPServer\<close>, at clock reading \<open>now\<close>:
  \<^verbatim>\<open>rateLimiter.checkLimit()\<close> and \<^verbatim>\<open>executeTool(name, ..., args || {})\<close> inside one
  \<^verbatim>\<open>try\<close>, whose \<^verbatim>\<open>catch\<close> logs and builds the error envelope.
\<close>

definition callTool ::
  "Runtime \<Rightarrow> registry \<Rightarrow> int \<Rightarrow> string \<Rightarrow> json option \<Rightarrow> Server
     \<Rightarrow> CallToolResult \<times> Server"
where
  "callTool rt tools now name args srv =
     (let srv0 = logger LevelInfo ''mcp'' (''Tool called: '' @ name) srv;
          (checked, rl) = checkLimit now (limiter (begin_step RateCheck srv0));
          srv1 = (begin_step RateCheck srv0)\<lparr>limiter := rl\<rparr>;
          (r, srv2) = (case checked of
                         Inl e \<Rightarrow> (Inl e, srv1)
                       | Inr _ \<Rightarrow>
                           executeTool tools name (argsOrEmpty args) srv1)
      in case r of
           Inr result \<Rightarrow> (successResult rt result, srv2)
         | Inl error \<Rightarrow>
             (errorResult rt error name,
              logger LevelError ''mcp'' (''Error executing tool '' @ name) srv2))"

text \<open>
  The course of an invocation as a decision table: the operations begun, in order, up to
  the first that fails, and the value the \<^verbatim>\<open>try\<close> block yields or throws. The
  theorems below relate it to \<open>callTool\<close>.
\<close>

definition outcome :: "registry \<Rightarrow> int \<Rightarrow> string \<Rightarrow> json option \<Rightarrow> Server \<Rightarrow> step list \<times> (thrown + json)" where
  "outcome tools now name args srv =
     (case fst (checkLimit now (limiter srv)) of
        Inl e \<Rightarrow> ([RateCheck], Inl e)
      | Inr _ \<Rightarrow>
          (case getTool tools name of
             None \<Rightarrow> ([RateCheck, Lookup], Inl (ToolNotFound name))
           | Some t \<Rightarrow>
               (case parse t (argsOrEmpty args) of
                  Inl e \<Rightarrow> ([RateCheck, Lookup, Validate], Inl e)
                | Inr validatedArgs \<Rightarrow>
                    ([RateCheck, Lookup, Validate, Execute], handler t validatedArgs))))"

section \<open>Concrete instances for evaluation\<close>

text \<open>
  A concrete setting for evaluation: the default configuration in read-only mode, a pool
  that yields a client, and a database that answers every statement with three rows.
\<close>

definition exampleConfig :: ServerConfig where
  "exampleConfig =
     \<lparr>mode = ReadOnly, queryTimeout = Finite 30000, maxResultRows = Finite 10000,
      enableRateLimit = True, rateLimitMaxRequests = 100, rateLimitWindowMs = 60000\<rparr>"

definition emptyWorld :: World where
  "emptyWorld = \<lparr>acquired = 0, released = 0, statements = [], logs = []\<rparr>"

definition threeRows :: QueryResult where
  "threeRows = \<lparr>rows = [JNum (Finite 1), JNum (Finite 2), JNum (Finite 3)],
                rowCount = Some (Finite 3)\<rparr>"

definition exampleDriver :: Driver where
  "exampleDriver = \<lparr>connectError = None, runStatement = (\<lambda>s. Inr threeRows)\<rparr>"

text \<open>
  A database in read-write mode that reports five affected rows and returns none, as for
  an \<^verbatim>\<open>UPDATE\<close> without \<^verbatim>\<open>RETURNING\<close>, and a pool whose \<^verbatim>\<open>connect()\<close> rejects.
\<close>

definition readWriteConfig :: ServerConfig where
  "readWriteConfig = exampleConfig\<lparr>mode := ReadWrite\<rparr>"

definition updateDriver :: Driver where
  "updateDriver =
     \<lparr>connectError = None,
      runStatement = (\<lambda>s. Inr \<lparr>rows = [], rowCount = Some (Finite 5)\<rparr>)\<rparr>"

definition update1 :: "jsnum option \<Rightarrow> QueryParams" where
  "update1 n =
     \<lparr>query = js ''UPDATE t SET x = 1'', params = [],
      options = \<lparr>timeout = None, maxRows = n\<rparr>\<rparr>"

definition unreachableDriver :: Driver where
  "unreachableDriver =
     \<lparr>connectError = Some (Failure ''timeout exceeded when trying to connect''),
      runStatement = (\<lambda>s. Inr threeRows)\<rparr>"

definition select1 :: "jsnum option \<Rightarrow> jsnum option \<Rightarrow> QueryParams" where
  "select1 t n =
     \<lparr>query = js ''SELECT 1'', params = [], options = \<lparr>timeout = t, maxRows = n\<rparr>\<rparr>"

text \<open>
  A concrete registry: one tool that takes an optional schema name with a default, accepts
  object arguments only, and returns one object. The runtime's serializer and message
  function are simple stand-ins, and the server allows one request per second. Its
  upper-case mapping \<open>latinUpper\<close> is that of \<^verbatim>\<open>toUpperCase\<close> on the code units from
  \<open>0x80\<close> to \<open>0xFF\<close> and on dotless i and long s; other code units are left as they
  are.
\<close>

definition exampleTool :: ToolDefinition where
  "exampleTool =
     \<lparr>schema = [(''schema'', ZodDefault (ZodOptional ZodString) (JStr ''public'')),
                (''pattern'', ZodOptional ZodString),
                (''table'', ZodString)],
      parse = (\<lambda>args. case args of JObj kvs \<Rightarrow> Inr (JObj kvs)
                                   | _ \<Rightarrow> Inl (Failure ''Expected object'')),
      handler = (\<lambda>args. Inr (JObj [(''table'', JStr ''orders''), (''schema'', JStr ''public'')]))\<rparr>"

definition exampleTools :: registry where
  "exampleTools = [(''listTables'', exampleTool)]"

definition latinUpper :: "jsstring \<Rightarrow> jsstring" where
  "latinUpper run =
     concat (map (\<lambda>c. if c = 0xDF then [0x53, 0x53]
                       else if c = 0xB5 then [0x39C]
                       else if c = 0xFF then [0x178]
                       else if 0xE0 \<le> c \<and> c \<le> 0xFE \<and> c \<noteq> 0xF7 then [c - 0x20]
                       else if c = 0x131 then [0x49]
                       else if c = 0x17F then [0x53]
                       else [c]) run)"

definition exampleRuntime :: Runtime where
  "exampleRuntime =
     \<lparr>upperNonAscii = latinUpper,
      stringify =
        (\<lambda>j. case j of
               JObj [(k1, JStr v1), (k2, JStr v2)] \<Rightarrow>
                 ''{'' @ k1 @ '': '' @ v1 @ '', '' @ k2 @ '': '' @ v2 @ ''}''
             | JObj [] \<Rightarrow> ''{}''
             | _ \<Rightarrow> ''null''),
      messageOf =
        (\<lambda>e. case e of
               ToolNotFound n \<Rightarrow> ''Tool '' @ n @ '' not found''
             | Failure m \<Rightarrow> m
             | _ \<Rightarrow> ''Rate limit exceeded'')\<rparr>"

definition exampleServer :: Server where
  "exampleServer = \<lparr>limiter = newRateLimiter 1 1000 True, steps = [], entries = []\<rparr>"

section \<open>Rate limiter: the window law\<close>

lemma ceil_div_1000_pos: "0 < x \<Longrightarrow> 0 < ceil_div_1000 x"
  unfolding ceil_div_1000_def by linarith

lemma sorted_le_last: "sorted xs \<Longrightarrow> x \<in> set xs \<Longrightarrow> x \<le> last (xs :: int list)"
  by (induction xs) auto

lemma checkLimit_admit:
  assumes "enabled rl"
    and "\<forall>r \<in> set (requests rl). now - windowMs rl < r"
    and "int (length (requests rl)) < maxRequests rl"
  shows "checkLimit now rl = (Inr (), rl\<lparr>requests := requests rl @ [now]\<rparr>)"
proof -
  have "filter (\<lambda>timestamp. timestamp > now - windowMs rl) (requests rl) = requests rl"
    using assms(2) by (simp add: filter_id_conv)
  then show ?thesis
    using assms(1,3) by (simp add: checkLimit_def Let_def)
qed

lemma checkLimit_reject:
  assumes "enabled rl"
    and "\<forall>r \<in> set (requests rl). now - windowMs rl < r"
    and "maxRequests rl \<le> int (length (requests rl))"
  shows "checkLimit now rl =
           (Inl (RateLimitExceeded (resetIn (requests rl) (windowMs rl) now)), rl)"
proof -
  have "filter (\<lambda>timestamp. timestamp > now - windowMs rl) (requests rl) = requests rl"
    using assms(2) by (simp add: filter_id_conv)
  then show ?thesis
    using assms(1,3) by (simp add: checkLimit_def Let_def)
qed

lemma checkLimits_admit_all:
  assumes "enabled rl"
    and "\<forall>t \<in> set ts. \<forall>r \<in> set (requests rl) \<union> set ts. t - windowMs rl < r"
    and "int (length (requests rl) + length ts) \<le> maxRequests rl"
  shows "checkLimits ts rl =
           (replicate (length ts) (Inr ()), rl\<lparr>requests := requests rl @ ts\<rparr>)"
  using assms
proof (induction ts arbitrary: rl)
  case Nil
  then show ?case by simp
next
  case (Cons t ts)
  let ?rl' = "rl\<lparr>requests := requests rl @ [t]\<rparr>"
  have step: "checkLimit t rl = (Inr (), ?rl')"
    using Cons.prems by (intro checkLimit_admit) auto
  have "checkLimits ts ?rl' =
          (replicate (length ts) (Inr ()), ?rl'\<lparr>requests := requests ?rl' @ ts\<rparr>)"
    using Cons.prems by (intro Cons.IH) auto
  with step show ?case by simp
qed

lemma checkLimits_reject_all:
  assumes "enabled rl"
    and "\<forall>u \<in> set us. \<forall>r \<in> set (requests rl). u - windowMs rl < r"
    and "maxRequests rl \<le> int (length (requests rl))"
  shows "checkLimits us rl =
           (map (\<lambda>u. Inl (RateLimitExceeded (resetIn (requests rl) (windowMs rl) u))) us, rl)"
  using assms
proof (induction us)
  case Nil
  then show ?case by simp
next
  case (Cons u us)
  have "checkLimit u rl = (Inl (RateLimitExceeded (resetIn (requests rl) (windowMs rl) u)), rl)"
    using Cons.prems by (intro checkLimit_reject) auto
  moreover have "checkLimits us rl =
      (map (\<lambda>u. Inl (RateLimitExceeded (resetIn (requests rl) (windowMs rl) u))) us, rl)"
    using Cons.prems by (intro Cons.IH) auto
  ultimately show ?case by simp
qed

lemma checkLimit_after_window:
  assumes "enabled rl" and "requests rl = r # rs"
    and "int (length (requests rl)) \<le> maxRequests rl"
    and "r + windowMs rl \<le> now"
  shows "fst (checkLimit now rl) = Inr ()"
proof -
  have "length (filter (\<lambda>timestamp. timestamp > now - windowMs rl) (r # rs)) \<le> length rs"
    using assms(4) by simp
  then have "int (length (filter (\<lambda>timestamp. timestamp > now - windowMs rl) (requests rl)))
               < maxRequests rl"
    using assms(2,3) by simp
  then show ?thesis
    using assms(1) by (simp add: checkLimit_def Let_def)
qed

lemma admitted_window_bound_gen:
  assumes "enabled rl" and "0 < windowMs rl"
    and "sorted ts"
    and "requests rl = filter (\<lambda>x. b < x) hist"
    and "\<forall>t \<in> set ts. b \<le> t - windowMs rl"
    and "\<forall>s. int (length (in_window s (windowMs rl) hist)) \<le> max 0 (maxRequests rl)"
  shows "int (length (in_window s (windowMs rl) (hist @ admitted ts rl))) \<le> max 0 (maxRequests rl)"
  using assms
proof (induction ts arbitrary: rl hist b)
  case Nil
  then show ?case by simp
next
  case (Cons t ts)
  let ?W = "windowMs rl"
  let ?reqs = "filter (\<lambda>x. t - ?W < x) (requests rl)"
  have reqs: "?reqs = filter (\<lambda>x. t - ?W < x) hist"
  proof -
    have "b \<le> t - ?W" using Cons.prems(5) by simp
    then have "\<And>x. (b < x \<and> t - ?W < x) = (t - ?W < x)" by auto
    then show ?thesis using Cons.prems(4) by simp
  qed
  have later: "\<forall>t' \<in> set ts. t - ?W \<le> t' - ?W"
    using Cons.prems(3) by auto
  show ?case
  proof (cases "int (length ?reqs) \<ge> maxRequests rl")
    case True
    then have step: "checkLimit t rl =
        (Inl (RateLimitExceeded (resetIn ?reqs ?W t)), rl\<lparr>requests := ?reqs\<rparr>)"
      using Cons.prems(1) by (simp add: checkLimit_def Let_def)
    have "int (length (in_window s (windowMs (rl\<lparr>requests := ?reqs\<rparr>))
                 (hist @ admitted ts (rl\<lparr>requests := ?reqs\<rparr>))))
            \<le> max 0 (maxRequests (rl\<lparr>requests := ?reqs\<rparr>))"
      using Cons.prems reqs later
      by (intro Cons.IH [where b = "t - ?W"]) auto
    with step show ?thesis by simp
  next
    case False
    then have step: "checkLimit t rl = (Inr (), rl\<lparr>requests := ?reqs @ [t]\<rparr>)"
      using Cons.prems(1) by (simp add: checkLimit_def Let_def)
    have req': "?reqs @ [t] = filter (\<lambda>x. t - ?W < x) (hist @ [t])"
      using reqs Cons.prems(2) by simp
    have bound': "int (length (in_window s' ?W (hist @ [t]))) \<le> max 0 (maxRequests rl)" for s'
    proof (cases "s' < t \<and> t \<le> s' + ?W")
      case inw: True
      have "length (in_window s' ?W hist) \<le> length (filter (\<lambda>x. t - ?W < x) hist)"
      proof -
        have "in_window s' ?W hist
                = filter (\<lambda>x. s' < x \<and> x \<le> s' + ?W) (filter (\<lambda>x. t - ?W < x) hist)"
          unfolding in_window_def filter_filter
          using inw by (intro filter_cong) auto
        then show ?thesis
          by (metis length_filter_le)
      qed
      with False reqs have "int (length (in_window s' ?W hist)) < maxRequests rl"
        by simp
      with inw show ?thesis
        by (simp add: in_window_def)
    next
      case False
      then have "in_window s' ?W (hist @ [t]) = in_window s' ?W hist"
        by (auto simp: in_window_def)
      with Cons.prems(6) show ?thesis by simp
    qed
    have "int (length (in_window s (windowMs (rl\<lparr>requests := ?reqs @ [t]\<rparr>))
                 ((hist @ [t]) @ admitted ts (rl\<lparr>requests := ?reqs @ [t]\<rparr>))))
            \<le> max 0 (maxRequests (rl\<lparr>requests := ?reqs @ [t]\<rparr>))"
      using Cons.prems req' later bound'
      by (intro Cons.IH [where b = "t - ?W"]) auto
    with step show ?thesis by simp
  qed
qed

lemma admitted_window_bound:
  assumes "0 < W" and "sorted ts"
  shows "int (length (in_window s W (admitted ts (newRateLimiter N W True)))) \<le> max 0 N"
proof -
  let ?rl = "newRateLimiter N W True"
  have "int (length (in_window s (windowMs ?rl) ([] @ admitted ts ?rl))) \<le> max 0 (maxRequests ?rl)"
  proof (cases ts)
    case Nil
    then show ?thesis by (simp add: in_window_def)
  next
    case (Cons t ts')
    show ?thesis
    proof (rule admitted_window_bound_gen [where b = "Min (set ts) - W"])
      show "\<forall>t \<in> set ts. Min (set ts) - W \<le> t - windowMs ?rl"
        by (simp add: newRateLimiter_def)
    qed (use assms in \<open>simp_all add: newRateLimiter_def in_window_def\<close>)
  qed
  then show ?thesis by (simp add: newRateLimiter_def)
qed

lemma checkLimit_call:
  assumes "enabled rl" and "maxRequests rl = int N" and "0 < N"
  shows "let reqs = filter (\<lambda>t. now - windowMs rl < t) (requests rl) in
           (length reqs < N \<longrightarrow> checkLimit now rl = (Inr (), rl\<lparr>requests := reqs @ [now]\<rparr>))
         \<and> (N \<le> length reqs \<longrightarrow>
               checkLimit now rl =
                 (Inl (RateLimitExceeded (Some (ceil_div_1000 (hd reqs + windowMs rl - now)))),
                  rl\<lparr>requests := reqs\<rparr>)
               \<and> reqs \<noteq> []
               \<and> 0 < ceil_div_1000 (hd reqs + windowMs rl - now))"
proof -
  define reqs where "reqs = filter (\<lambda>t. now - windowMs rl < t) (requests rl)"
  have a: "checkLimit now rl = (Inr (), rl\<lparr>requests := reqs @ [now]\<rparr>)" if "length reqs < N"
    using that assms by (simp add: checkLimit_def Let_def reqs_def)
  have b: "checkLimit now rl =
                 (Inl (RateLimitExceeded (Some (ceil_div_1000 (hd reqs + windowMs rl - now)))),
                  rl\<lparr>requests := reqs\<rparr>)
               \<and> reqs \<noteq> []
               \<and> 0 < ceil_div_1000 (hd reqs + windowMs rl - now)" if le: "N \<le> length reqs"
  proof -
    from le assms(3) obtain r rs where rs: "reqs = r # rs"
      by (cases reqs) auto
    then have "r \<in> set (filter (\<lambda>t. now - windowMs rl < t) (requests rl))"
      unfolding reqs_def by (metis list.set_intros(1))
    then have "0 < r + windowMs rl - now"
      by simp
    then have "0 < ceil_div_1000 (hd reqs + windowMs rl - now)"
      using rs by (simp add: ceil_div_1000_pos)
    moreover have "checkLimit now rl =
                 (Inl (RateLimitExceeded (Some (ceil_div_1000 (hd reqs + windowMs rl - now)))),
                  rl\<lparr>requests := reqs\<rparr>)"
      using le assms rs reqs_def [symmetric]
      by (simp add: checkLimit_def Let_def resetIn_def)
    ultimately show ?thesis using rs by simp
  qed
  from a b show ?thesis
    unfolding reqs_def Let_def by blast
qed

lemma checkLimit_fields:
  "enabled (snd (checkLimit now rl)) = enabled rl"
  "maxRequests (snd (checkLimit now rl)) = maxRequests rl"
  "windowMs (snd (checkLimit now rl)) = windowMs rl"
  by (simp_all add: checkLimit_def Let_def)

lemma checkLimits_fields:
  "enabled (snd (checkLimits calls rl)) = enabled rl
   \<and> maxRequests (snd (checkLimits calls rl)) = maxRequests rl
   \<and> windowMs (snd (checkLimits calls rl)) = windowMs rl"
proof (induction calls arbitrary: rl)
  case Nil
  then show ?case by simp
next
  case (Cons t calls)
  from Cons.IH [of "snd (checkLimit t rl)"] checkLimit_fields [of t rl]
  show ?case by (simp add: split_beta)
qed

lemma checkLimit_length:
  assumes "enabled rl" and "int (length (requests rl)) \<le> max 0 (maxRequests rl)"
  shows "int (length (requests (snd (checkLimit now rl)))) \<le> max 0 (maxRequests rl)"
proof -
  let ?reqs = "filter (\<lambda>timestamp. timestamp > now - windowMs rl) (requests rl)"
  have le: "int (length ?reqs) \<le> int (length (requests rl))"
    by simp
  show ?thesis
  proof (cases "int (length ?reqs) \<ge> maxRequests rl")
    case True
    then have eq: "requests (snd (checkLimit now rl)) = ?reqs"
      using assms(1) by (simp add: checkLimit_def Let_def)
    have "int (length ?reqs) \<le> max 0 (maxRequests rl)"
      using le assms(2) by (rule order_trans)
    then show ?thesis
      unfolding eq .
  next
    case False
    then have "requests (snd (checkLimit now rl)) = ?reqs @ [now]"
      using assms(1) by (simp add: checkLimit_def Let_def)
    with False show ?thesis by simp
  qed
qed

lemma checkLimits_length:
  assumes "enabled rl" and "int (length (requests rl)) \<le> max 0 (maxRequests rl)"
  shows "int (length (requests (snd (checkLimits calls rl)))) \<le> max 0 (maxRequests rl)"
  using assms
proof (induction calls arbitrary: rl)
  case Nil
  then show ?case by simp
next
  case (Cons t calls)
  have "int (length (requests (snd (checkLimits calls (snd (checkLimit t rl))))))
          \<le> max 0 (maxRequests (snd (checkLimit t rl)))"
    using Cons.prems checkLimit_length [of rl t] checkLimit_fields [of t rl]
    by (intro Cons.IH) simp_all
  then show ?case
    by (simp add: split_beta checkLimit_fields)
qed

lemma admitted_subset: "set (admitted calls rl) \<subseteq> set calls"
proof (induction calls arbitrary: rl)
  case Nil
  then show ?case by simp
next
  case (Cons t calls)
  obtain r rl' where step: "checkLimit t rl = (r, rl')"
    by (cases "checkLimit t rl") auto
  with Cons.IH [of rl'] show ?case
    by (cases r) auto
qed

lemma sorted_admitted: "sorted calls \<Longrightarrow> sorted (admitted calls rl)"
proof (induction calls arbitrary: rl)
  case Nil
  then show ?case by simp
next
  case (Cons t calls)
  obtain r rl' where step: "checkLimit t rl = (r, rl')"
    by (cases "checkLimit t rl") auto
  from Cons.prems have "sorted calls" "\<forall>x \<in> set calls. t \<le> x"
    by simp_all
  with Cons.IH [of rl'] admitted_subset [of calls rl'] step show ?case
    by (cases r) auto
qed

lemma checkLimits_requests_gen:
  assumes "enabled rl"
    and "sorted (ts @ [now])"
    and "\<forall>c. b \<le> c \<longrightarrow> filter (\<lambda>x. c < x) (requests rl) = filter (\<lambda>x. c < x) hist"
    and "\<forall>t \<in> set (ts @ [now]). b \<le> t - windowMs rl"
  shows "filter (\<lambda>x. now - windowMs rl < x) (requests (snd (checkLimits ts rl)))
           = filter (\<lambda>x. now - windowMs rl < x) (hist @ admitted ts rl)"
  using assms
proof (induction ts arbitrary: rl hist b)
  case Nil
  then show ?case by simp
next
  case (Cons t ts)
  let ?W = "windowMs rl"
  let ?reqs = "filter (\<lambda>x. t - ?W < x) (requests rl)"
  have bt: "b \<le> t - ?W"
    using Cons.prems(4) by simp
  have reqs: "?reqs = filter (\<lambda>x. t - ?W < x) hist"
    using Cons.prems(3) bt by simp
  have sorted': "sorted (ts @ [now])"
    using Cons.prems(2) by simp
  have later: "\<forall>t' \<in> set (ts @ [now]). t - ?W \<le> t' - ?W"
    using Cons.prems(2) by auto
  have filt: "filter (\<lambda>x. c < x) (filter (\<lambda>x. t - ?W < x) hist) = filter (\<lambda>x. c < x) hist"
    if "t - ?W \<le> c" for c
    using that by (auto intro: filter_cong)
  show ?case
  proof (cases "int (length ?reqs) \<ge> maxRequests rl")
    case True
    then have step: "checkLimit t rl =
        (Inl (RateLimitExceeded (resetIn ?reqs ?W t)), rl\<lparr>requests := ?reqs\<rparr>)"
      using Cons.prems(1) by (simp add: checkLimit_def Let_def)
    have "filter (\<lambda>x. now - windowMs (rl\<lparr>requests := ?reqs\<rparr>) < x)
            (requests (snd (checkLimits ts (rl\<lparr>requests := ?reqs\<rparr>))))
          = filter (\<lambda>x. now - windowMs (rl\<lparr>requests := ?reqs\<rparr>) < x)
              (hist @ admitted ts (rl\<lparr>requests := ?reqs\<rparr>))"
      using Cons.prems(1) sorted' later reqs filt
      by (intro Cons.IH [where b = "t - ?W"]) auto
    with step show ?thesis by (simp add: split_beta)
  next
    case False
    then have step: "checkLimit t rl = (Inr (), rl\<lparr>requests := ?reqs @ [t]\<rparr>)"
      using Cons.prems(1) by (simp add: checkLimit_def Let_def)
    have "filter (\<lambda>x. now - windowMs (rl\<lparr>requests := ?reqs @ [t]\<rparr>) < x)
            (requests (snd (checkLimits ts (rl\<lparr>requests := ?reqs @ [t]\<rparr>))))
          = filter (\<lambda>x. now - windowMs (rl\<lparr>requests := ?reqs @ [t]\<rparr>) < x)
              ((hist @ [t]) @ admitted ts (rl\<lparr>requests := ?reqs @ [t]\<rparr>))"
      using Cons.prems(1) sorted' later reqs filt
      by (intro Cons.IH [where b = "t - ?W"]) auto
    with step show ?thesis by (simp add: split_beta)
  qed
qed

text \<open>
  The first window of a fresh limiter: the first \<open>N\<close> calls are admitted, every further
  call in the window is rejected with the retry-after computed from the first call, and a
  call at or after \<open>hd ts + W\<close> is admitted again.
\<close>

lemma first_window_law:
  assumes N: "0 < N" "length ts = N"
    and mono: "sorted ts"
    and win: "last ts < hd ts + W"
    and us: "\<forall>u \<in> set us. last ts \<le> u \<and> u < hd ts + W"
    and later: "hd ts + W \<le> t'"
  shows "let rl0 = newRateLimiter (int N) W True;
             rl1 = rl0\<lparr>requests := ts\<rparr>
         in checkLimits ts rl0 = (replicate N (Inr ()), rl1)
          \<and> checkLimits us rl1 =
              (map (\<lambda>u. Inl (RateLimitExceeded (Some (ceil_div_1000 (hd ts + W - u))))) us, rl1)
          \<and> (\<forall>u \<in> set us. 0 < ceil_div_1000 (hd ts + W - u))
          \<and> fst (checkLimit t' rl1) = Inr ()"
proof -
  define rl0 where "rl0 = newRateLimiter (int N) W True"
  define rl1 where "rl1 = rl0\<lparr>requests := ts\<rparr>"
  from N obtain t0 ts' where ts: "ts = t0 # ts'"
    by (cases ts) auto
  have lo: "\<forall>r \<in> set ts. hd ts \<le> r"
    using mono ts by auto
  have hi: "\<forall>r \<in> set ts. r \<le> last ts"
    using mono by (auto intro: sorted_le_last)
  have fields: "enabled rl0" "requests rl0 = []" "windowMs rl0 = W" "maxRequests rl0 = int N"
    "enabled rl1" "requests rl1 = ts" "windowMs rl1 = W" "maxRequests rl1 = int N"
    by (simp_all add: rl0_def rl1_def newRateLimiter_def)
  have a: "checkLimits ts rl0 = (replicate N (Inr ()), rl1)"
  proof -
    have "\<forall>t \<in> set ts. \<forall>r \<in> set (requests rl0) \<union> set ts. t - windowMs rl0 < r"
      using lo hi win fields by fastforce
    then have "checkLimits ts rl0 =
        (replicate (length ts) (Inr ()), rl0\<lparr>requests := requests rl0 @ ts\<rparr>)"
      using fields N by (intro checkLimits_admit_all) auto
    then show ?thesis
      using N fields by (simp add: rl1_def)
  qed
  have b: "checkLimits us rl1 =
      (map (\<lambda>u. Inl (RateLimitExceeded (Some (ceil_div_1000 (hd ts + W - u))))) us, rl1)"
  proof -
    have "\<forall>u \<in> set us. \<forall>r \<in> set (requests rl1). u - windowMs rl1 < r"
      using lo us fields by fastforce
    then have "checkLimits us rl1 =
        (map (\<lambda>u. Inl (RateLimitExceeded (resetIn (requests rl1) (windowMs rl1) u))) us, rl1)"
      using fields N by (intro checkLimits_reject_all) auto
    then show ?thesis
      using fields ts by (simp add: resetIn_def)
  qed
  have c: "\<forall>u \<in> set us. 0 < ceil_div_1000 (hd ts + W - u)"
    using us by (auto intro: ceil_div_1000_pos)
  have d: "fst (checkLimit t' rl1) = Inr ()"
    using fields ts N later by (intro checkLimit_after_window [where r = t0 and rs = ts']) auto
  from a b c d show ?thesis
    unfolding rl0_def rl1_def Let_def by blast
qed


lemma in_window_nonpositive: "W \<le> 0 \<Longrightarrow> in_window s W xs = []"
  by (auto simp: in_window_def filter_empty_conv)

lemma admitted_window_bound_any:
  assumes "sorted ts"
  shows "int (length (in_window s W (admitted ts (newRateLimiter N W True)))) \<le> max 0 N"
proof (cases "0 < W")
  case True
  with assms show ?thesis by (intro admitted_window_bound)
next
  case False
  then show ?thesis by (simp add: in_window_nonpositive)
qed

text \<open>
  Claim C3 (amended to \<open>N \<ge> 1\<close> and, for the statements about windows, to a clock that
  does not run backwards). Let \<open>maxRequests = N \<ge> 1\<close>.

  \<^item> At any state of an enabled limiter and any clock reading, let \<open>reqs\<close> be the recorded
    timestamps in the window. With fewer than \<open>N\<close> of them the call succeeds and records
    \<open>now\<close>; with \<open>N\<close> or more it fails, keeps \<open>reqs\<close>, and carries the retry-after
    \<open>ceil ((hd reqs + W - now) / 1000)\<close> of the oldest of them, which is positive.
  \<^item> After any sequence of calls on a fresh limiter at most \<open>N\<close> timestamps are recorded,
    and a call at or after the first recorded timestamp plus \<open>W\<close> succeeds.
  \<^item> If the clock readings of the calls do not decrease, the recorded timestamps in the
    window are the admitted calls in \<open>(now - W, now]\<close>, oldest first, the call
    succeeds exactly when fewer than \<open>N\<close> admitted calls lie there, and at most \<open>N\<close>
    admitted calls lie in any window \<open>(s, s + W]\<close>.
  \<^item> In the first window of a fresh limiter exactly the first \<open>N\<close> calls succeed, every
    further call in the window fails, and a call at or after the first call plus \<open>W\<close>
    succeeds again.
\<close>

theorem rate_limit_window_law:
  assumes N: "0 < N"
  shows
    "(enabled rl \<and> maxRequests rl = int N \<longrightarrow>
        (let reqs = filter (\<lambda>t. now - windowMs rl < t) (requests rl) in
           (length reqs < N \<longrightarrow>
              checkLimit now rl = (Inr (), rl\<lparr>requests := reqs @ [now]\<rparr>))
         \<and> (N \<le> length reqs \<longrightarrow>
               checkLimit now rl =
                 (Inl (RateLimitExceeded (Some (ceil_div_1000 (hd reqs + windowMs rl - now)))),
                  rl\<lparr>requests := reqs\<rparr>)
               \<and> reqs \<noteq> []
               \<and> 0 < ceil_div_1000 (hd reqs + windowMs rl - now))))
     \<and> (let rl0 = newRateLimiter (int N) W True;
             rl' = snd (checkLimits calls rl0);
             inw = filter (\<lambda>t. now - W < t) (admitted calls rl0)
         in enabled rl' \<and> maxRequests rl' = int N \<and> windowMs rl' = W
          \<and> length (requests rl') \<le> N
          \<and> (\<forall>r rs. requests rl' = r # rs \<and> r + W \<le> now \<longrightarrow> fst (checkLimit now rl') = Inr ())
          \<and> (sorted calls \<longrightarrow> (\<forall>s. length (in_window s W (admitted calls rl0)) \<le> N))
          \<and> (sorted (calls @ [now]) \<longrightarrow>
                filter (\<lambda>t. now - W < t) (requests rl') = inw
              \<and> sorted inw
              \<and> (fst (checkLimit now rl') = Inr () \<longleftrightarrow> length inw < N)))
     \<and> (length ts = N \<and> sorted ts \<and> last ts < hd ts + W
          \<and> (\<forall>u \<in> set us. last ts \<le> u \<and> u < hd ts + W) \<and> hd ts + W \<le> t' \<longrightarrow>
         (let rl0 = newRateLimiter (int N) W True;
              rl1 = rl0\<lparr>requests := ts\<rparr>
          in checkLimits ts rl0 = (replicate N (Inr ()), rl1)
           \<and> checkLimits us rl1 =
               (map (\<lambda>u. Inl (RateLimitExceeded (Some (ceil_div_1000 (hd ts + W - u))))) us, rl1)
           \<and> (\<forall>u \<in> set us. 0 < ceil_div_1000 (hd ts + W - u))
           \<and> fst (checkLimit t' rl1) = Inr ()))"
proof -
  define rl0 where "rl0 = newRateLimiter (int N) W True"
  define rl' where "rl' = snd (checkLimits calls rl0)"
  define inw where "inw = filter (\<lambda>t. now - W < t) (admitted calls rl0)"
  have f0: "enabled rl0" "maxRequests rl0 = int N" "windowMs rl0 = W" "requests rl0 = []"
    by (simp_all add: rl0_def newRateLimiter_def)
  have f: "enabled rl'" "maxRequests rl' = int N" "windowMs rl' = W"
    using checkLimits_fields [of calls rl0] f0 by (simp_all add: rl'_def)
  have a: "enabled rl \<and> maxRequests rl = int N \<longrightarrow>
        (let reqs = filter (\<lambda>t. now - windowMs rl < t) (requests rl) in
           (length reqs < N \<longrightarrow>
              checkLimit now rl = (Inr (), rl\<lparr>requests := reqs @ [now]\<rparr>))
         \<and> (N \<le> length reqs \<longrightarrow>
               checkLimit now rl =
                 (Inl (RateLimitExceeded (Some (ceil_div_1000 (hd reqs + windowMs rl - now)))),
                  rl\<lparr>requests := reqs\<rparr>)
               \<and> reqs \<noteq> []
               \<and> 0 < ceil_div_1000 (hd reqs + windowMs rl - now)))"
    using checkLimit_call [of rl N now] N by blast
  have len: "length (requests rl') \<le> N"
    using checkLimits_length [of rl0 calls] f0 by (simp add: rl'_def)
  have readmit: "\<forall>r rs. requests rl' = r # rs \<and> r + W \<le> now \<longrightarrow> fst (checkLimit now rl') = Inr ()"
  proof (intro allI impI)
    fix r rs
    assume "requests rl' = r # rs \<and> r + W \<le> now"
    with f len show "fst (checkLimit now rl') = Inr ()"
      by (intro checkLimit_after_window [where r = r and rs = rs]) auto
  qed
  have bound: "sorted calls \<longrightarrow> (\<forall>s. length (in_window s W (admitted calls rl0)) \<le> N)"
  proof (intro impI allI)
    fix s
    assume "sorted calls"
    then have "int (length (in_window s W (admitted calls (newRateLimiter (int N) W True))))
                 \<le> max 0 (int N)"
      by (rule admitted_window_bound_any)
    then show "length (in_window s W (admitted calls rl0)) \<le> N"
      by (simp add: rl0_def)
  qed
  have mono: "filter (\<lambda>t. now - W < t) (requests rl') = inw
              \<and> sorted inw
              \<and> (fst (checkLimit now rl') = Inr () \<longleftrightarrow> length inw < N)"
    if s: "sorted (calls @ [now])"
  proof -
    have "filter (\<lambda>x. now - windowMs rl0 < x) (requests (snd (checkLimits calls rl0)))
            = filter (\<lambda>x. now - windowMs rl0 < x) ([] @ admitted calls rl0)"
    proof (rule checkLimits_requests_gen [where b = "Min (set (calls @ [now])) - W"])
      show "\<forall>t \<in> set (calls @ [now]). Min (set (calls @ [now])) - W \<le> t - windowMs rl0"
        using f0 by simp
    qed (use f0 s in simp_all)
    then have eq: "filter (\<lambda>t. now - W < t) (requests rl') = inw"
      using f0 by (simp add: rl'_def inw_def)
    from s have "sorted calls"
      by (simp add: sorted_append)
    then have so: "sorted inw"
      unfolding inw_def by (intro sorted_wrt_filter sorted_admitted)
    have "fst (checkLimit now rl') = Inr () \<longleftrightarrow> length inw < N"
      using checkLimit_call [of rl' N now] f N eq
      by (cases "length inw < N") (auto simp: Let_def)
    with eq so show ?thesis by blast
  qed
  have fw: "length ts = N \<and> sorted ts \<and> last ts < hd ts + W
          \<and> (\<forall>u \<in> set us. last ts \<le> u \<and> u < hd ts + W) \<and> hd ts + W \<le> t' \<longrightarrow>
         (let rl0 = newRateLimiter (int N) W True;
              rl1 = rl0\<lparr>requests := ts\<rparr>
          in checkLimits ts rl0 = (replicate N (Inr ()), rl1)
           \<and> checkLimits us rl1 =
               (map (\<lambda>u. Inl (RateLimitExceeded (Some (ceil_div_1000 (hd ts + W - u))))) us, rl1)
           \<and> (\<forall>u \<in> set us. 0 < ceil_div_1000 (hd ts + W - u))
           \<and> fst (checkLimit t' rl1) = Inr ())"
    using first_window_law [of N ts W us t'] N by blast
  from a f len readmit bound mono fw show ?thesis
    unfolding rl0_def rl'_def inw_def Let_def by blast
qed

theorem rate_limit_window_law_witness:
  "checkLimits [0, 600, 1100] (newRateLimiter 2 1000 True)
     = ([Inr (), Inr (), Inr ()], (newRateLimiter 2 1000 True)\<lparr>requests := [600, 1100]\<rparr>)
   \<and> admitted [0, 600, 1100] (newRateLimiter 2 1000 True) = [0, 600, 1100]
   \<and> checkLimit 1200 ((newRateLimiter 2 1000 True)\<lparr>requests := [600, 1100]\<rparr>)
     = (Inl (RateLimitExceeded (Some 1)), (newRateLimiter 2 1000 True)\<lparr>requests := [600, 1100]\<rparr>)
   \<and> fst (checkLimit 1600 ((newRateLimiter 2 1000 True)\<lparr>requests := [600, 1100]\<rparr>)) = Inr ()"
proof -
  let ?rl = "(newRateLimiter 2 1000 True)\<lparr>requests := [600, 1100]\<rparr>"
  have run: "checkLimits [0, 600, 1100] (newRateLimiter 2 1000 True)
               = ([Inr (), Inr (), Inr ()], ?rl)"
    by (simp add: checkLimit_def newRateLimiter_def)
  have adm: "admitted [0, 600, 1100] (newRateLimiter 2 1000 True) = [0, 600, 1100]"
    by (simp add: checkLimit_def newRateLimiter_def)
  have st: "enabled ?rl" "maxRequests ?rl = int 2" "windowMs ?rl = 1000"
    "filter (\<lambda>t. 1200 - windowMs ?rl < t) (requests ?rl) = [600, 1100]"
    "filter (\<lambda>t. 1600 - windowMs ?rl < t) (requests ?rl) = [1100]"
    by (simp_all add: newRateLimiter_def)
  from rate_limit_window_law [where N = 2 and rl = ?rl and now = 1200] st
  have rej: "checkLimit 1200 ?rl = (Inl (RateLimitExceeded (Some 1)), ?rl)"
    by (simp add: Let_def ceil_div_1000_def newRateLimiter_def)
  from rate_limit_window_law [where N = 2 and rl = ?rl and now = 1600] st
  have "fst (checkLimit 1600 ?rl) = Inr ()"
    by (simp add: Let_def)
  with run adm rej show ?thesis by blast
qed

text \<open>
  Claim C3 as stated covers \<open>N = 0\<close> and every sequence of clock readings. With \<open>N = 0\<close>
  the first call is rejected while no timestamp is recorded, and the retry-after computed
  from \<^verbatim>\<open>undefined\<close> is not a positive number. With \<open>N = 2\<close>, \<open>W = 1000\<close> and the
  readings \<open>1000, 1100, 2100, 1200\<close> of a clock that is set back, all four calls succeed,
  three of them in the window \<open>(999, 1999]\<close>.
\<close>

theorem rate_limit_counterexample:
  "checkLimit 0 (newRateLimiter 0 1000 True)
     = (Inl (RateLimitExceeded None), newRateLimiter 0 1000 True)
   \<and> admitted [1000, 1100, 2100, 1200] (newRateLimiter 2 1000 True) = [1000, 1100, 2100, 1200]
   \<and> in_window 999 1000 [1000, 1100, 2100, 1200] = [1000, 1100, 1200]"
  by (simp add: checkLimit_def newRateLimiter_def resetIn_def in_window_def)

section \<open>Sanitizer: mode gate, stacked statements, empty input\<close>

lemma split_ws_nonempty: "split_ws s \<noteq> []"
  by (induction s rule: split_ws.induct) (auto split: list.splits)

lemma hd_split_ws: "hd (split_ws s) = takeWhile (\<lambda>c. \<not> is_space c) s"
proof (induction s rule: split_ws.induct)
  case 1
  then show ?case by simp
next
  case (2 c cs)
  then show ?case
    using split_ws_nonempty [of cs] by (auto split: list.splits)
qed

lemma takeWhile_strip_suffix:
  "takeWhile P (rev (dropWhile (\<lambda>x. \<not> P x) (rev s))) = takeWhile P s"
proof -
  define a where "a = rev (dropWhile (\<lambda>x. \<not> P x) (rev s))"
  define b where "b = rev (takeWhile (\<lambda>x. \<not> P x) (rev s))"
  have s: "s = a @ b"
    unfolding a_def b_def
    by (metis rev_append rev_rev_ident takeWhile_dropWhile_id)
  have b: "\<forall>x \<in> set b. \<not> P x"
    unfolding b_def by (auto dest: set_takeWhileD)
  have "takeWhile P b = []"
    using b by (cases b) auto
  then have ab: "takeWhile P (a @ b) = takeWhile P a"
    by (induction a) auto
  have "takeWhile P s = takeWhile P (a @ b)"
    by (rule arg_cong [OF s])
  with ab have "takeWhile P a = takeWhile P s"
    by simp
  then show ?thesis
    unfolding a_def .
qed

lemma first_token_trim:
  "hd (split_ws (trim q)) = takeWhile (\<lambda>c. \<not> is_space c) (dropWhile is_space q)"
  unfolding trim_def hd_split_ws
  using takeWhile_strip_suffix [of "\<lambda>c. \<not> is_space c" "dropWhile is_space q"] by simp

lemma sanitizeQuery_operation:
  assumes "trim q \<noteq> []"
  shows "sanitizeQuery other q m =
           (if leading_keyword other q \<notin> set (allowedOps m)
            then Inl (OperationNotAllowed (leading_keyword other q) m)
            else if list_ex (\<lambda>p. test p (trim q)) DANGEROUS_PATTERNS
              then Inl DangerousQueryPattern
            else if multiple_statements (trim q) then Inl MultipleStatements
            else Inr ())"
proof -
  obtain token rest where sp: "split_ws (trim q) = token # rest"
    using split_ws_nonempty [of "trim q"] by (cases "split_ws (trim q)") auto
  then have "token = takeWhile (\<lambda>c. \<not> is_space c) (dropWhile is_space q)"
    using first_token_trim [of q] by simp
  then have "toUpperCase other token = leading_keyword other q"
    by (simp add: leading_keyword_def)
  then show ?thesis
    using assms sp by (simp add: sanitizeQuery_def Let_def)
qed

lemma asciiUpper_idem: "asciiUpper (asciiUpper c) = asciiUpper c"
  by (simp add: asciiUpper_def)

lemma asciiUpper_below: "asciiUpper c < 0x80 \<longleftrightarrow> c < 0x80"
  by (simp add: asciiUpper_def)

lemma is_space_asciiUpper: "is_space (asciiUpper c) = is_space c"
  by (auto simp: asciiUpper_def is_space_def)

lemma upperRuns_asciiUpper: "upperRuns other run (map asciiUpper cs) = upperRuns other run cs"
proof (induction cs arbitrary: run)
  case Nil
  then show ?case by simp
next
  case (Cons c cs)
  show ?case
  proof (cases "c < 0x80")
    case True
    with Cons.IH [of "[]"] show ?thesis
      by (simp add: asciiUpper_below asciiUpper_idem)
  next
    case False
    then have "asciiUpper c = c"
      by (simp add: asciiUpper_def)
    with False Cons.IH [of "run @ [c]"] show ?thesis
      by simp
  qed
qed

lemma upperRuns_ascii:
  "\<forall>c \<in> set cs. c < 0x80 \<Longrightarrow> upperRuns other [] cs = map asciiUpper cs"
  by (induction cs) simp_all

lemma leading_keyword_asciiUpper:
  "leading_keyword other (map asciiUpper q) = leading_keyword other q"
proof -
  have "takeWhile (\<lambda>c. \<not> is_space c) (dropWhile is_space (map asciiUpper q))
          = map asciiUpper (takeWhile (\<lambda>c. \<not> is_space c) (dropWhile is_space q))"
    by (simp add: takeWhile_map dropWhile_map comp_def is_space_asciiUpper)
  then show ?thesis
    by (simp add: leading_keyword_def toUpperCase_def upperRuns_asciiUpper)
qed

lemma leading_keyword_ascii:
  assumes "\<forall>c \<in> set q. c < 0x80"
  shows "leading_keyword other q
           = map asciiUpper (takeWhile (\<lambda>c. \<not> is_space c) (dropWhile is_space q))"
proof -
  have "\<forall>c \<in> set (takeWhile (\<lambda>c. \<not> is_space c) (dropWhile is_space q)). c < 0x80"
    using assms by (meson set_dropWhileD set_takeWhileD)
  then show ?thesis
    by (simp add: leading_keyword_def toUpperCase_def upperRuns_ascii)
qed

text \<open>
  Claim C6. \<open>sanitizeQuery\<close> fails with the mode violation exactly when the trimmed query
  is not empty and its leading keyword (the first white-space-delimited token, upper-cased
  by \<^verbatim>\<open>toUpperCase\<close>) is not in the allow-list of the mode; the error names that
  keyword and the mode. A keyword outside the allow-list always makes the call fail.
  Queries that differ only in the case of ASCII letters have the same keyword, and on an
  ASCII query the keyword is the token with \<open>a\<close> to \<open>z\<close> upper-cased. The allow-lists are
  those of the specification. \<open>DELETE FROM t\<close>, in either case, is a mode violation in
  read-only mode and passes in read-write mode. A byte-order mark before \<open>SELECT 1\<close> is
  trimmed away; where the runtime upper-cases long s to \<open>S\<close>, the query that begins with a
  long s followed by \<open>elect\<close> passes in read-only mode, and where it upper-cases \<open>0xE9\<close>
  to \<open>0xC9\<close>, the error for a query beginning with \<open>0xE9\<close> carries \<open>0xC9\<close>.
\<close>

theorem sanitizeQuery_mode_gate:
  "(sanitizeQuery other q m = Inl (OperationNotAllowed operation m') \<longleftrightarrow>
      trim q \<noteq> [] \<and> leading_keyword other q \<notin> set (allowedOps m)
      \<and> operation = leading_keyword other q \<and> m' = m)
   \<and> (leading_keyword other q \<notin> set (allowedOps m) \<longrightarrow> isl (sanitizeQuery other q m))
   \<and> (map asciiUpper q = map asciiUpper q' \<longrightarrow>
         leading_keyword other q = leading_keyword other q')
   \<and> ((\<forall>c \<in> set q. c < 0x80) \<longrightarrow>
         leading_keyword other q
           = map asciiUpper (takeWhile (\<lambda>c. \<not> is_space c) (dropWhile is_space q)))
   \<and> allowedOps ReadOnly = map js [''SELECT'', ''EXPLAIN'', ''WITH'']
   \<and> allowedOps ReadWrite =
        map js [''SELECT'', ''INSERT'', ''UPDATE'', ''DELETE'', ''CREATE'', ''ALTER'', ''DROP'',
                ''TRUNCATE'', ''VACUUM'', ''ANALYZE'', ''REINDEX'', ''EXPLAIN'', ''WITH'']
   \<and> sanitizeQuery other (js ''DELETE FROM t'') ReadOnly
        = Inl (OperationNotAllowed (js ''DELETE'') ReadOnly)
   \<and> sanitizeQuery other (js ''DELETE FROM t'') ReadWrite = Inr ()
   \<and> sanitizeQuery other (js ''delete from t'') ReadOnly
        = Inl (OperationNotAllowed (js ''DELETE'') ReadOnly)
   \<and> sanitizeQuery other (js ''Delete From t'') ReadWrite = Inr ()
   \<and> sanitizeQuery other (0xFEFF # js ''SELECT 1'') ReadOnly = Inr ()
   \<and> (other [0x17F] = js ''S'' \<longrightarrow>
         sanitizeQuery other (0x17F # js ''elect 1'') ReadOnly = Inr ())
   \<and> (other [0xE9] = [0xC9] \<longrightarrow>
         sanitizeQuery other (0xE9 # js ''lan 1'') ReadOnly
           = Inl (OperationNotAllowed (0xC9 # js ''LAN'') ReadOnly))"
proof -
  have a: "sanitizeQuery other q m = Inl (OperationNotAllowed operation m') \<longleftrightarrow>
      trim q \<noteq> [] \<and> leading_keyword other q \<notin> set (allowedOps m)
      \<and> operation = leading_keyword other q \<and> m' = m"
  proof (cases "trim q = []")
    case True
    then show ?thesis by (simp add: sanitizeQuery_def)
  next
    case False
    then show ?thesis by (auto simp: sanitizeQuery_operation)
  qed
  have b: "leading_keyword other q \<notin> set (allowedOps m) \<longrightarrow> isl (sanitizeQuery other q m)"
  proof (cases "trim q = []")
    case True
    then show ?thesis by (simp add: sanitizeQuery_def)
  next
    case False
    then show ?thesis by (simp add: sanitizeQuery_operation)
  qed
  have c: "map asciiUpper q = map asciiUpper q' \<longrightarrow>
         leading_keyword other q = leading_keyword other q'"
    by (metis leading_keyword_asciiUpper)
  have c': "(\<forall>c \<in> set q. c < 0x80) \<longrightarrow>
         leading_keyword other q
           = map asciiUpper (takeWhile (\<lambda>c. \<not> is_space c) (dropWhile is_space q))"
    using leading_keyword_ascii by blast
  have d: "allowedOps ReadOnly = map js [''SELECT'', ''EXPLAIN'', ''WITH'']"
    by (simp add: allowedOps_def ALLOWED_READ_ONLY_OPERATIONS_def)
  have e: "allowedOps ReadWrite =
        map js [''SELECT'', ''INSERT'', ''UPDATE'', ''DELETE'', ''CREATE'', ''ALTER'', ''DROP'',
                ''TRUNCATE'', ''VACUUM'', ''ANALYZE'', ''REINDEX'', ''EXPLAIN'', ''WITH'']"
    by (simp add: allowedOps_def ALLOWED_READ_WRITE_OPERATIONS_def)
  have f: "sanitizeQuery other (js ''DELETE FROM t'') ReadOnly
        = Inl (OperationNotAllowed (js ''DELETE'') ReadOnly)"
    by code_simp
  have g: "sanitizeQuery other (js ''DELETE FROM t'') ReadWrite = Inr ()"
    by code_simp
  have h: "sanitizeQuery other (js ''delete from t'') ReadOnly
        = Inl (OperationNotAllowed (js ''DELETE'') ReadOnly)"
    by code_simp
  have i: "sanitizeQuery other (js ''Delete From t'') ReadWrite = Inr ()"
    by code_simp
  have j: "sanitizeQuery other (0xFEFF # js ''SELECT 1'') ReadOnly = Inr ()"
    by code_simp
  have k: "other [0x17F] = js ''S'' \<longrightarrow>
         sanitizeQuery other (0x17F # js ''elect 1'') ReadOnly = Inr ()"
  proof
    assume up: "other [0x17F] = js ''S''"
    have "leading_keyword other (0x17F # js ''elect 1'') = other [0x17F] @ js ''ELECT''"
      by (simp add: leading_keyword_def toUpperCase_def js_def is_space_def asciiUpper_def)
    with up have lk: "leading_keyword other (0x17F # js ''elect 1'') = js ''SELECT''"
      by (simp add: js_def)
    have "js ''SELECT'' \<in> set (allowedOps ReadOnly)"
      by (simp add: d)
    moreover have "trim (0x17F # js ''elect 1'') \<noteq> []"
      by code_simp
    moreover have "\<not> list_ex (\<lambda>p. test p (trim (0x17F # js ''elect 1''))) DANGEROUS_PATTERNS"
      by code_simp
    moreover have "\<not> multiple_statements (trim (0x17F # js ''elect 1''))"
      by code_simp
    ultimately show "sanitizeQuery other (0x17F # js ''elect 1'') ReadOnly = Inr ()"
      using lk by (simp add: sanitizeQuery_operation)
  qed
  have l: "other [0xE9] = [0xC9] \<longrightarrow>
         sanitizeQuery other (0xE9 # js ''lan 1'') ReadOnly
           = Inl (OperationNotAllowed (0xC9 # js ''LAN'') ReadOnly)"
  proof
    assume up: "other [0xE9] = [0xC9]"
    have "leading_keyword other (0xE9 # js ''lan 1'') = other [0xE9] @ js ''LAN''"
      by (simp add: leading_keyword_def toUpperCase_def js_def is_space_def asciiUpper_def)
    with up have lk: "leading_keyword other (0xE9 # js ''lan 1'') = 0xC9 # js ''LAN''"
      by simp
    have "0xC9 # js ''LAN'' \<notin> set (allowedOps ReadOnly)"
      by code_simp
    moreover have "trim (0xE9 # js ''lan 1'') \<noteq> []"
      by code_simp
    ultimately show "sanitizeQuery other (0xE9 # js ''lan 1'') ReadOnly
           = Inl (OperationNotAllowed (0xC9 # js ''LAN'') ReadOnly)"
      using lk by (simp add: sanitizeQuery_operation)
  qed
  show ?thesis
    by (intro conjI a b c c' d e f g h i j k l)
qed

theorem sanitizeQuery_mode_gate_witness:
  "sanitizeQuery latinUpper (0x17F # js ''elect 1'') ReadOnly = Inr ()
   \<and> sanitizeQuery latinUpper (0xE9 # js ''lan 1'') ReadOnly
       = Inl (OperationNotAllowed (0xC9 # js ''LAN'') ReadOnly)
   \<and> leading_keyword latinUpper (js '' drop  table t'') = js ''DROP''
   \<and> sanitizeQuery latinUpper (js '' drop  table t'') ReadOnly
       = Inl (OperationNotAllowed (js ''DROP'') ReadOnly)
   \<and> leading_keyword latinUpper (js ''Drop table t'')
       = leading_keyword latinUpper (js ''dROP TABLE T'')"
proof -
  note gate = sanitizeQuery_mode_gate [where other = latinUpper and m = ReadOnly
      and q = "js '' drop  table t''" and operation = "js ''DROP''" and m' = ReadOnly]
  note fold = sanitizeQuery_mode_gate [where other = latinUpper
      and q = "js ''Drop table t''" and q' = "js ''dROP TABLE T''"]
  have s: "latinUpper [0x17F] = js ''S''"
    by code_simp
  have e: "latinUpper [0xE9] = [0xC9]"
    by code_simp
  have k: "leading_keyword latinUpper (js '' drop  table t'') = js ''DROP''"
    by code_simp
  have n: "js ''DROP'' \<notin> set (allowedOps ReadOnly)"
    by code_simp
  have t: "trim (js '' drop  table t'') \<noteq> []"
    by code_simp
  have u: "map asciiUpper (js ''Drop table t'') = map asciiUpper (js ''dROP TABLE T'')"
    by code_simp
  have a: "sanitizeQuery latinUpper (0x17F # js ''elect 1'') ReadOnly = Inr ()"
    using gate [THEN conjunct2, THEN conjunct2, THEN conjunct2, THEN conjunct2, THEN conjunct2, THEN conjunct2, THEN conjunct2, THEN conjunct2, THEN conjunct2, THEN conjunct2, THEN conjunct2, THEN conjunct1] s by (rule mp)
  have b: "sanitizeQuery latinUpper (0xE9 # js ''lan 1'') ReadOnly
       = Inl (OperationNotAllowed (0xC9 # js ''LAN'') ReadOnly)"
    using gate [THEN conjunct2, THEN conjunct2, THEN conjunct2, THEN conjunct2, THEN conjunct2, THEN conjunct2, THEN conjunct2, THEN conjunct2, THEN conjunct2, THEN conjunct2, THEN conjunct2, THEN conjunct2] e by (rule mp)
  have c: "sanitizeQuery latinUpper (js '' drop  table t'') ReadOnly
       = Inl (OperationNotAllowed (js ''DROP'') ReadOnly)"
    using gate [THEN conjunct1] t n k by simp
  have d: "leading_keyword latinUpper (js ''Drop table t'')
       = leading_keyword latinUpper (js ''dROP TABLE T'')"
    using fold [THEN conjunct2, THEN conjunct2, THEN conjunct1] u by (rule mp)
  show ?thesis
    by (intro conjI a b k c d)
qed

subsection \<open>Stacked statements\<close>

lemma indexFrom_eq:
  "indexFrom c s k =
     (if c \<in> set s then int (k + length (takeWhile (\<lambda>x. x \<noteq> c) s)) else - 1)"
  by (induction s arbitrary: k) auto

lemma multiple_statements_iff:
  "multiple_statements t \<longleftrightarrow> (\<exists>i. Suc i < length t \<and> t ! i = of_char CHR '';'')"
proof
  assume m: "multiple_statements t"
  let ?j = "length (takeWhile (\<lambda>x. x \<noteq> of_char CHR '';'') t)"
  from m have mem: "of_char CHR '';'' \<in> set t" and ne: "int ?j \<noteq> int (length t) - 1"
    by (auto simp: multiple_statements_def includesChar_def indexOf_def indexFrom_eq)
  have "?j \<noteq> length t"
  proof
    assume "?j = length t"
    then have "takeWhile (\<lambda>x. x \<noteq> of_char CHR '';'') t = t"
      by (metis takeWhile_eq_take take_all order_refl)
    with mem show False
      by (metis set_takeWhileD)
  qed
  then have lt: "?j < length t"
    using length_takeWhile_le [of "\<lambda>x. x \<noteq> of_char CHR '';''" t] by linarith
  then have "t ! ?j = of_char CHR '';''"
    using nth_length_takeWhile [of "\<lambda>x. x \<noteq> of_char CHR '';''" t] by simp
  moreover from lt ne have "Suc ?j < length t"
    by linarith
  ultimately show "\<exists>i. Suc i < length t \<and> t ! i = of_char CHR '';''"
    by blast
next
  assume "\<exists>i. Suc i < length t \<and> t ! i = of_char CHR '';''"
  then obtain i where i: "Suc i < length t" "t ! i = of_char CHR '';''"
    by blast
  let ?j = "length (takeWhile (\<lambda>x. x \<noteq> of_char CHR '';'') t)"
  from i have mem: "of_char CHR '';'' \<in> set t"
    by (metis Suc_lessD nth_mem)
  have "?j \<le> i"
  proof (rule ccontr)
    assume "\<not> ?j \<le> i"
    then have "i < ?j" by simp
    then have "t ! i \<noteq> of_char CHR '';''"
      using nth_mem [of i "takeWhile (\<lambda>x. x \<noteq> of_char CHR '';'') t"]
      by (auto simp: takeWhile_nth dest: set_takeWhileD)
    with i show False by simp
  qed
  with i have "int ?j \<noteq> int (length t) - 1"
    by linarith
  with mem show "multiple_statements t"
    by (simp add: multiple_statements_def includesChar_def indexOf_def indexFrom_eq)
qed

text \<open>
  Claim C7 (amended: positions are those of the trimmed query). If the trimmed query has a
  semicolon before its final character, \<open>sanitizeQuery\<close> fails. The stacked-statement
  check itself rejects exactly the strings with a semicolon before the final character, so
  a string with no semicolon, or with its only semicolon last, passes it.
  \<open>SELECT 1;\<close> and \<open>SELECT 1\<close> are accepted and \<open>SELECT 1; SELECT 2\<close> is rejected.
\<close>

theorem sanitizeQuery_stacked_guard:
  "((\<exists>i. Suc i < length (trim q) \<and> trim q ! i = of_char CHR '';'')
      \<longrightarrow> isl (sanitizeQuery other q m))
   \<and> (multiple_statements t \<longleftrightarrow> (\<exists>i. Suc i < length t \<and> t ! i = of_char CHR '';''))
   \<and> sanitizeQuery other (js ''SELECT 1;'') m = Inr ()
   \<and> sanitizeQuery other (js ''SELECT 1'') m = Inr ()
   \<and> sanitizeQuery other (js ''SELECT 1; SELECT 2'') m = Inl MultipleStatements"
proof -
  have a: "(\<exists>i. Suc i < length (trim q) \<and> trim q ! i = of_char CHR '';'')
      \<longrightarrow> isl (sanitizeQuery other q m)"
  proof
    assume ex: "\<exists>i. Suc i < length (trim q) \<and> trim q ! i = of_char CHR '';''"
    then have ne: "trim q \<noteq> []" by auto
    from ex have "multiple_statements (trim q)"
      by (simp add: multiple_statements_iff)
    with ne show "isl (sanitizeQuery other q m)"
      by (simp add: sanitizeQuery_operation)
  qed
  have c: "sanitizeQuery other (js ''SELECT 1;'') m = Inr ()"
  proof -
    have "sanitizeQuery other (js ''SELECT 1;'') ReadOnly = Inr ()"
      by code_simp
    moreover have "sanitizeQuery other (js ''SELECT 1;'') ReadWrite = Inr ()"
      by code_simp
    ultimately show ?thesis
      by (cases m) simp_all
  qed
  have d: "sanitizeQuery other (js ''SELECT 1'') m = Inr ()"
  proof -
    have "sanitizeQuery other (js ''SELECT 1'') ReadOnly = Inr ()"
      by code_simp
    moreover have "sanitizeQuery other (js ''SELECT 1'') ReadWrite = Inr ()"
      by code_simp
    ultimately show ?thesis
      by (cases m) simp_all
  qed
  have e: "sanitizeQuery other (js ''SELECT 1; SELECT 2'') m = Inl MultipleStatements"
  proof -
    have "sanitizeQuery other (js ''SELECT 1; SELECT 2'') ReadOnly = Inl MultipleStatements"
      by code_simp
    moreover have "sanitizeQuery other (js ''SELECT 1; SELECT 2'') ReadWrite = Inl MultipleStatements"
      by code_simp
    ultimately show ?thesis
      by (cases m) simp_all
  qed
  show ?thesis
    by (intro conjI a multiple_statements_iff c d e)
qed

theorem sanitizeQuery_stacked_guard_witness:
  "Suc 8 < length (trim (js ''SELECT 1; SELECT 2 ''))
   \<and> trim (js ''SELECT 1; SELECT 2 '') ! 8 = of_char CHR '';''
   \<and> isl (sanitizeQuery latinUpper (js ''SELECT 1; SELECT 2 '') ReadWrite)"
proof -
  have h: "Suc 8 < length (trim (js ''SELECT 1; SELECT 2 ''))
           \<and> trim (js ''SELECT 1; SELECT 2 '') ! 8 = of_char CHR '';''"
    by code_simp
  then have "\<exists>i. Suc i < length (trim (js ''SELECT 1; SELECT 2 ''))
                \<and> trim (js ''SELECT 1; SELECT 2 '') ! i = of_char CHR '';''"
    by blast
  with sanitizeQuery_stacked_guard [of "js ''SELECT 1; SELECT 2 ''" latinUpper ReadWrite] h
  show ?thesis by blast
qed

text \<open>
  Claim C7 as stated speaks of the query itself. A semicolon followed only by white space
  is not the final character of the query, yet the query is accepted: the check runs on
  the trimmed text.
\<close>

theorem sanitizeQuery_trailing_space_counterexample:
  "js ''SELECT 1; '' ! 8 = of_char CHR '';''
   \<and> Suc 8 < length (js ''SELECT 1; '')
   \<and> sanitizeQuery latinUpper (js ''SELECT 1; '') ReadOnly = Inr ()"
  by code_simp

subsection \<open>Empty input\<close>

lemma trim_all_space:
  assumes "\<forall>c \<in> set s. is_space c"
  shows "trim s = []"
proof -
  from assms have d: "dropWhile is_space s = []"
    by (simp add: dropWhile_eq_Nil_conv)
  show ?thesis
    unfolding trim_def d by simp
qed

text \<open>
  Claim C10. On an empty or white-space-only string \<open>validateOrderBy\<close> returns normally,
  while \<open>validateUserWhereClause\<close>, \<open>validateCondition\<close> and \<open>validateInterval\<close> each
  throw their "cannot be empty" error.
\<close>

theorem empty_input_validators:
  "(\<forall>c \<in> set s. is_space c) \<longrightarrow>
     validateOrderBy s = Inr ()
     \<and> validateUserWhereClause s = Inl WhereEmpty
     \<and> validateCondition s = Inl ConditionEmpty
     \<and> validateInterval s = Inl IntervalEmpty"
proof
  assume "\<forall>c \<in> set s. is_space c"
  then have t: "trim s = []"
    by (rule trim_all_space)
  show "validateOrderBy s = Inr ()
     \<and> validateUserWhereClause s = Inl WhereEmpty
     \<and> validateCondition s = Inl ConditionEmpty
     \<and> validateInterval s = Inl IntervalEmpty"
    by (simp add: t validateOrderBy_def validateUserWhereClause_def
        validateCondition_def validateInterval_def)
qed

theorem empty_input_validators_witness:
  "is_space 0x20 \<and> is_space 0x09 \<and> is_space 0x0A \<and> is_space 0x3000
   \<and> validateOrderBy [0x20, 0x09, 0x0A, 0x3000] = Inr ()
   \<and> validateUserWhereClause [0x20, 0x09, 0x0A, 0x3000] = Inl WhereEmpty
   \<and> validateCondition [0x20, 0x09, 0x0A, 0x3000] = Inl ConditionEmpty
   \<and> validateInterval [0x20, 0x09, 0x0A, 0x3000] = Inl IntervalEmpty"
proof -
  have h: "is_space 0x20 \<and> is_space 0x09 \<and> is_space 0x0A \<and> is_space 0x3000"
    by (simp add: is_space_def)
  then have "\<forall>c \<in> set [0x20, 0x09, 0x0A, 0x3000]. is_space c"
    by simp
  with empty_input_validators [of "[0x20, 0x09, 0x0A, 0x3000]"] h show ?thesis
    by blast
qed

section \<open>Query execution: connections, timeout, row cap\<close>

subsection \<open>Connections\<close>

lemma logCall_counts [simp]:
  "acquired (logCall lv t msg w) = acquired w"
  "released (logCall lv t msg w) = released w"
  "statements (logCall lv t msg w) = statements w"
  by (simp_all add: logCall_def)

lemma clientQuery_counts:
  "clientQuery drv s w = (r, w') \<Longrightarrow> acquired w' = acquired w \<and> released w' = released w"
  by (auto simp: clientQuery_def)

lemma capRows_counts:
  "capRows n res w = (res', w') \<Longrightarrow>
     acquired w' = acquired w \<and> released w' = released w \<and> statements w' = statements w"
  by (auto simp: capRows_def split: if_splits)

lemma runOnClient_counts:
  assumes "runOnClient drv q ps t n w = (r, w')"
  shows "acquired w' = acquired w \<and> released w' = released w"
  using assms
  by (auto simp: runOnClient_def Let_def clientQuery_def
      split: if_splits jsnum.splits sum.splits prod.splits dest!: capRows_counts)

text \<open>
  Claim C5. Whatever \<open>executeQuery\<close> returns or throws (sanitizer error, connection
  error, invalid timeout, database error, or a result), the call acquires at most one
  client and releases exactly as many clients as it acquired, so the number of clients
  checked out of the pool after the call equals the number before it.
\<close>

theorem executeQuery_releases:
  "acquired (snd (executeQuery rt config drv p w)) + released w
     = acquired w + released (snd (executeQuery rt config drv p w))
   \<and> acquired w \<le> acquired (snd (executeQuery rt config drv p w))
   \<and> acquired (snd (executeQuery rt config drv p w)) \<le> Suc (acquired w)
   \<and> checkedOut (snd (executeQuery rt config drv p w)) = checkedOut w"
proof (cases "sanitizeQuery (upperNonAscii rt) (query p) (mode config)")
  case (Inl e)
  then show ?thesis by (simp add: executeQuery_def)
next
  case (Inr u)
  show ?thesis
  proof (cases "connectError drv")
    case (Some e)
    with Inr show ?thesis by (simp add: executeQuery_def Let_def checkedOut_def)
  next
    case None
    let ?w1 = "(logCall LevelDebug ''query'' ''Executing query'' w)
                 \<lparr>acquired := Suc (acquired w)\<rparr>"
    obtain r w2 where run: "runOnClient drv (query p) (params p)
        (effectiveTimeout config (options p)) (effectiveMaxRows config (options p)) ?w1 = (r, w2)"
      by (cases "runOnClient drv (query p) (params p)
        (effectiveTimeout config (options p)) (effectiveMaxRows config (options p)) ?w1") auto
    from runOnClient_counts [OF run]
    have "acquired w2 = Suc (acquired w)" "released w2 = released w"
      by simp_all
    with Inr None run show ?thesis
      by (cases r) (simp_all add: executeQuery_def Let_def checkedOut_def)
  qed
qed

theorem executeQuery_releases_witness:
  "checkedOut (snd (executeQuery exampleRuntime exampleConfig exampleDriver (select1 None None) emptyWorld)) = 0
   \<and> acquired (snd (executeQuery exampleRuntime exampleConfig exampleDriver (select1 None None) emptyWorld)) = 1
   \<and> released (snd (executeQuery exampleRuntime exampleConfig exampleDriver (select1 None None) emptyWorld)) = 1"
proof -
  have "acquired (snd (executeQuery exampleRuntime exampleConfig exampleDriver (select1 None None) emptyWorld)) = 1"
    by code_simp
  with executeQuery_releases [of exampleRuntime exampleConfig exampleDriver "select1 None None"
      emptyWorld]
  show ?thesis
    by (simp add: checkedOut_def emptyWorld_def)
qed

subsection \<open>Statement timeout\<close>

lemma effectiveTimeout_eq:
  "effectiveTimeout config opts =
     (case timeout opts of
        None \<Rightarrow> queryTimeout config
      | Some t \<Rightarrow> if t = Finite 0 \<or> t = NaN then queryTimeout config else t)"
proof (cases "timeout opts")
  case None
  then show ?thesis by (simp add: effectiveTimeout_def)
next
  case (Some t)
  then show ?thesis by (cases t) (simp_all add: effectiveTimeout_def)
qed

lemma runOnClient_invalid:
  "\<not> validTimeout t \<Longrightarrow> runOnClient drv q ps t n w = (Inl InvalidTimeout, w)"
  by (cases t) (simp_all add: runOnClient_def)

lemma runOnClient_first_statement:
  assumes "0 \<le> t"
  shows "take (Suc (length (statements w))) (statements (snd (runOnClient drv q ps (Finite t) n w)))
           = statements w @ [SetStatementTimeout \<lfloor>t\<rfloor>]"
  using assms
  by (auto simp: runOnClient_def clientQuery_def Let_def not_less
      split: sum.splits prod.splits dest!: capRows_counts)

lemma executeQuery_connected:
  assumes "sanitizeQuery (upperNonAscii rt) (query p) (mode config) = Inr ()" and "connectError drv = None"
  shows "executeQuery rt config drv p w =
     (let w1 = (logCall LevelDebug ''query'' ''Executing query'' w)\<lparr>acquired := Suc (acquired w)\<rparr>;
          (r, w2) = runOnClient drv (query p) (params p)
                      (effectiveTimeout config (options p)) (effectiveMaxRows config (options p)) w1;
          w3 = (case r of
                  Inl e \<Rightarrow> logCall LevelError ''query'' ''Query execution failed'' w2
                | Inr _ \<Rightarrow> w2)
      in (r, w3\<lparr>released := Suc (released w3)\<rparr>))"
  using assms by (simp add: executeQuery_def Let_def)

text \<open>
  Claim C4 (amended). The effective timeout is \<open>options.timeout\<close> when that is provided
  and is neither \<open>0\<close> nor \<open>NaN\<close>, and \<open>config.queryTimeout\<close> otherwise. When the effective
  value is not a finite non-negative number the call fails and sends no statement; the
  failure is the invalid-timeout error when the sanitizer accepts the query and the pool
  yields a client. When the value is finite and non-negative, the first statement sent is
  \<open>SET statement_timeout\<close> with its floor.
\<close>

theorem executeQuery_timeout:
  "effectiveTimeout config (options p) =
     (case timeout (options p) of
        None \<Rightarrow> queryTimeout config
      | Some t \<Rightarrow> if t = Finite 0 \<or> t = NaN then queryTimeout config else t)
   \<and> (\<not> validTimeout (effectiveTimeout config (options p)) \<longrightarrow>
        isl (fst (executeQuery rt config drv p w))
        \<and> statements (snd (executeQuery rt config drv p w)) = statements w)
   \<and> (\<not> validTimeout (effectiveTimeout config (options p))
        \<and> sanitizeQuery (upperNonAscii rt) (query p) (mode config) = Inr () \<and> connectError drv = None \<longrightarrow>
        fst (executeQuery rt config drv p w) = Inl InvalidTimeout)
   \<and> (effectiveTimeout config (options p) = Finite t \<and> 0 \<le> t
        \<and> sanitizeQuery (upperNonAscii rt) (query p) (mode config) = Inr () \<and> connectError drv = None \<longrightarrow>
        take (Suc (length (statements w))) (statements (snd (executeQuery rt config drv p w)))
          = statements w @ [SetStatementTimeout \<lfloor>t\<rfloor>])"
proof -
  let ?T = "effectiveTimeout config (options p)"
  let ?w1 = "(logCall LevelDebug ''query'' ''Executing query'' w)\<lparr>acquired := Suc (acquired w)\<rparr>"
  have a: "?T = (case timeout (options p) of
        None \<Rightarrow> queryTimeout config
      | Some t \<Rightarrow> if t = Finite 0 \<or> t = NaN then queryTimeout config else t)"
    by (rule effectiveTimeout_eq)
  have c: "fst (executeQuery rt config drv p w) = Inl InvalidTimeout
           \<and> statements (snd (executeQuery rt config drv p w)) = statements w"
    if inv: "\<not> validTimeout ?T"
      and ok: "sanitizeQuery (upperNonAscii rt) (query p) (mode config) = Inr ()" "connectError drv = None"
    using runOnClient_invalid [OF inv] ok
    by (simp add: executeQuery_connected Let_def)
  have b: "isl (fst (executeQuery rt config drv p w))
           \<and> statements (snd (executeQuery rt config drv p w)) = statements w"
    if inv: "\<not> validTimeout ?T"
  proof (cases "sanitizeQuery (upperNonAscii rt) (query p) (mode config)")
    case (Inl e)
    then show ?thesis by (simp add: executeQuery_def)
  next
    case (Inr u)
    show ?thesis
    proof (cases "connectError drv")
      case (Some e)
      with Inr show ?thesis by (simp add: executeQuery_def Let_def)
    next
      case None
      with Inr c [OF inv] show ?thesis by simp
    qed
  qed
  have d: "take (Suc (length (statements w))) (statements (snd (executeQuery rt config drv p w)))
          = statements w @ [SetStatementTimeout \<lfloor>t\<rfloor>]"
    if T: "?T = Finite t" "0 \<le> t"
      and ok: "sanitizeQuery (upperNonAscii rt) (query p) (mode config) = Inr ()" "connectError drv = None"
  proof -
    obtain r w2 where run: "runOnClient drv (query p) (params p) (Finite t)
        (effectiveMaxRows config (options p)) ?w1 = (r, w2)"
      by (cases "runOnClient drv (query p) (params p) (Finite t)
        (effectiveMaxRows config (options p)) ?w1") auto
    from runOnClient_first_statement [OF T(2), of ?w1 drv "query p" "params p"
        "effectiveMaxRows config (options p)"] run
    have "take (Suc (length (statements w))) (statements w2)
            = statements w @ [SetStatementTimeout \<lfloor>t\<rfloor>]"
      by simp
    with run T ok show ?thesis
      by (cases r) (simp_all add: executeQuery_connected Let_def)
  qed
  from a b c d show ?thesis by blast
qed

theorem executeQuery_timeout_witness:
  "effectiveTimeout exampleConfig \<lparr>timeout = Some (Finite (5 / 2)), maxRows = None\<rparr> = Finite (5 / 2)
   \<and> statements (snd (executeQuery exampleRuntime exampleConfig exampleDriver
                          (select1 (Some (Finite (5 / 2))) None) emptyWorld))
       = [SetStatementTimeout 2, Statement (js ''SELECT 1'') []]
   \<and> fst (executeQuery exampleRuntime exampleConfig exampleDriver (select1 (Some (Finite (- 5))) None) emptyWorld)
       = Inl InvalidTimeout
   \<and> statements (snd (executeQuery exampleRuntime exampleConfig exampleDriver
                          (select1 (Some (Finite (- 5))) None) emptyWorld)) = []"
proof -
  have v: "\<not> validTimeout (effectiveTimeout exampleConfig (options (select1 (Some (Finite (- 5))) None)))"
    by code_simp
  have s: "sanitizeQuery (upperNonAscii exampleRuntime) (query (select1 (Some (Finite (- 5))) None)) (mode exampleConfig) = Inr ()"
    by code_simp
  have k: "connectError exampleDriver = None"
    by (simp add: exampleDriver_def)
  have e: "effectiveTimeout exampleConfig \<lparr>timeout = Some (Finite (5 / 2)), maxRows = None\<rparr>
             = Finite (5 / 2)"
    by code_simp
  have st: "statements (snd (executeQuery exampleRuntime exampleConfig exampleDriver
                          (select1 (Some (Finite (5 / 2))) None) emptyWorld))
       = [SetStatementTimeout 2, Statement (js ''SELECT 1'') []]"
    by code_simp
  from executeQuery_timeout
         [where rt = exampleRuntime and config = exampleConfig
            and p = "select1 (Some (Finite (- 5))) None" and drv = exampleDriver
            and w = emptyWorld and t = 0]
       v s k
  have "fst (executeQuery exampleRuntime exampleConfig exampleDriver (select1 (Some (Finite (- 5))) None) emptyWorld)
          = Inl InvalidTimeout
        \<and> statements (snd (executeQuery exampleRuntime exampleConfig exampleDriver
                          (select1 (Some (Finite (- 5))) None) emptyWorld)) = statements emptyWorld"
    by blast
  with e st show ?thesis
    by (simp add: emptyWorld_def)
qed

text \<open>
  When \<^verbatim>\<open>pool.connect()\<close> rejects, the timeout is never examined: the call fails with
  the connection error, also for an invalid timeout, and no client is acquired.
\<close>

lemma executeQuery_connect_failure_example:
  "executeQuery exampleRuntime exampleConfig unreachableDriver (select1 (Some (Finite (- 5))) None) emptyWorld
     = (Inl (Failure ''timeout exceeded when trying to connect''),
        \<lparr>acquired = 0, released = 0, statements = [],
         logs = [\<lparr>level = LevelDebug, tool = ''query'', message = ''Executing query''\<rparr>,
                 \<lparr>level = LevelError, tool = ''query'', message = ''Query execution failed''\<rparr>]\<rparr>)"
  by code_simp

text \<open>
  Claim C4 as stated takes \<open>options.timeout = 0\<close> for the effective timeout. The source
  combines the two values with \<^verbatim>\<open>||\<close>, for which \<open>0\<close> is falsy: the configured timeout
  is used.
\<close>

theorem executeQuery_timeout_zero_counterexample:
  "timeout (options (select1 (Some (Finite 0)) None)) = Some (Finite 0)
   \<and> effectiveTimeout exampleConfig (options (select1 (Some (Finite 0)) None)) = Finite 30000
   \<and> statements (snd (executeQuery exampleRuntime exampleConfig exampleDriver
                          (select1 (Some (Finite 0)) None) emptyWorld))
       = [SetStatementTimeout 30000, Statement (js ''SELECT 1'') []]"
  by code_simp

subsection \<open>Row cap\<close>

lemma toInteger_of_nat: "toInteger (of_nat C) = int C"
  by (simp add: toInteger_def)

lemma slice0_of_nat: "slice0 xs (Finite (of_nat C)) = take C xs"
  by (simp add: toInteger_of_nat Let_def min_def)

lemma exceedsMaxRows_of_nat:
  assumes "rowCount res = Some (Finite (of_nat R))"
  shows "exceedsMaxRows res (Finite (of_nat C)) \<longleftrightarrow> C < R"
  using assms by (auto simp: exceedsMaxRows_def)

lemma warnings_logCall:
  "warnings (logCall lv t msg w) = (if lv = LevelWarn then Suc (warnings w) else warnings w)"
  by (simp add: warnings_def logCall_def)

lemma warnings_update [simp]:
  "warnings (w\<lparr>acquired := a\<rparr>) = warnings w"
  "warnings (w\<lparr>released := b\<rparr>) = warnings w"
  "warnings (w\<lparr>statements := c\<rparr>) = warnings w"
  by (simp_all add: warnings_def)

text \<open>
  Claim C2 (amended). Let the query run (the sanitizer accepts it, a client is obtained,
  the timeout is valid and both statements succeed), let the driver's result report as
  \<open>rowCount\<close> the number \<open>R\<close> of its rows, and let the effective cap be a non-negative
  integer \<open>C\<close>. If \<open>C < R\<close> the returned result has exactly the first \<open>C\<close> rows, its
  \<open>rowCount\<close> is \<open>C\<close>, and one warning is logged; otherwise the result is returned
  unmodified and no warning is logged.
\<close>

theorem executeQuery_row_cap:
  assumes san: "sanitizeQuery (upperNonAscii rt) (query p) (mode config) = Inr ()"
    and conn: "connectError drv = None"
    and tmo: "effectiveTimeout config (options p) = Finite t" "0 \<le> t"
    and setok: "runStatement drv (SetStatementTimeout \<lfloor>t\<rfloor>) = Inr x"
    and run: "runStatement drv (Statement (query p) (params p)) = Inr res"
    and cnt: "rowCount res = Some (Finite (of_nat (length (rows res))))"
    and cap: "effectiveMaxRows config (options p) = Finite (of_nat C)"
  shows "if C < length (rows res)
         then fst (executeQuery rt config drv p w)
                = Inr (res\<lparr>rows := take C (rows res), rowCount := Some (Finite (of_nat C))\<rparr>)
              \<and> length (take C (rows res)) = C
              \<and> warnings (snd (executeQuery rt config drv p w)) = Suc (warnings w)
         else fst (executeQuery rt config drv p w) = Inr res
              \<and> warnings (snd (executeQuery rt config drv p w)) = warnings w"
proof -
  have ex: "exceedsMaxRows res (Finite (of_nat C)) \<longleftrightarrow> C < length (rows res)"
    using cnt by (rule exceedsMaxRows_of_nat)
  show ?thesis
  proof (cases "C < length (rows res)")
    case True
    with ex san conn tmo setok run cap show ?thesis
      by (simp add: executeQuery_connected runOnClient_def clientQuery_def capRows_def
          Let_def slice0_of_nat warnings_logCall not_less del: slice0.simps)
  next
    case False
    with ex san conn tmo setok run cap show ?thesis
      by (simp add: executeQuery_connected runOnClient_def clientQuery_def capRows_def
          Let_def warnings_logCall not_less del: slice0.simps)
  qed
qed

theorem executeQuery_row_cap_witness:
  "fst (executeQuery exampleRuntime exampleConfig exampleDriver (select1 None (Some (Finite 2))) emptyWorld)
     = Inr \<lparr>rows = [JNum (Finite 1), JNum (Finite 2)], rowCount = Some (Finite 2)\<rparr>
   \<and> warnings (snd (executeQuery exampleRuntime exampleConfig exampleDriver
                        (select1 None (Some (Finite 2))) emptyWorld)) = 1
   \<and> fst (executeQuery exampleRuntime exampleConfig exampleDriver (select1 None (Some (Finite 3))) emptyWorld)
     = Inr threeRows
   \<and> warnings (snd (executeQuery exampleRuntime exampleConfig exampleDriver
                        (select1 None (Some (Finite 3))) emptyWorld)) = 0"
proof -
  have san: "sanitizeQuery (upperNonAscii exampleRuntime) (query (select1 None (Some (Finite n)))) (mode exampleConfig) = Inr ()"
    for n
    by code_simp
  have conn: "connectError exampleDriver = None"
    by (simp add: exampleDriver_def)
  have tmo: "effectiveTimeout exampleConfig (options (select1 None (Some (Finite n)))) = Finite 30000"
    for n
    by (simp add: effectiveTimeout_def exampleConfig_def select1_def)
  have run: "runStatement exampleDriver s = Inr threeRows" for s
    by (simp add: exampleDriver_def)
  have cnt: "rowCount threeRows = Some (Finite (of_nat (length (rows threeRows))))"
    by (simp add: threeRows_def)
  have cap2: "effectiveMaxRows exampleConfig (options (select1 None (Some (Finite 2))))
                = Finite (of_nat 2)"
    by (simp add: effectiveMaxRows_def select1_def)
  have cap3: "effectiveMaxRows exampleConfig (options (select1 None (Some (Finite 3))))
                = Finite (of_nat 3)"
    by (simp add: effectiveMaxRows_def select1_def)
  have w0: "warnings emptyWorld = 0"
    by (simp add: warnings_def emptyWorld_def)
  from executeQuery_row_cap [OF san conn tmo _ run run cnt cap2, where w = emptyWorld]
       executeQuery_row_cap [OF san conn tmo _ run run cnt cap3, where w = emptyWorld] w0
  show ?thesis
    by (simp add: threeRows_def)
qed

text \<open>
  The cap is compared with \<^verbatim>\<open>result.rowCount\<close>, not with the number of rows. For a
  statement that reports affected rows and returns none, a count above the cap logs the
  warning and overwrites the count, while there are no rows to clip.
\<close>

lemma executeQuery_affected_rows_example:
  "fst (executeQuery exampleRuntime readWriteConfig updateDriver (update1 (Some (Finite 2))) emptyWorld)
     = Inr \<lparr>rows = [], rowCount = Some (Finite 2)\<rparr>
   \<and> warnings (snd (executeQuery exampleRuntime readWriteConfig updateDriver (update1 (Some (Finite 2)))
                        emptyWorld)) = 1"
  by code_simp

text \<open>
  Claim C2 as stated covers every effective cap. The executeQuery tool accepts any number
  for \<open>maxRows\<close>; with the cap \<open>-1\<close> and three rows, \<^verbatim>\<open>rows.slice(0, -1)\<close> keeps two rows.
\<close>

theorem executeQuery_negative_cap_counterexample:
  "effectiveMaxRows exampleConfig (options (select1 None (Some (Finite (- 1))))) = Finite (- 1)
   \<and> runStatement exampleDriver (Statement (js ''SELECT 1'') []) = Inr threeRows
   \<and> length (rows threeRows) = 3
   \<and> fst (executeQuery exampleRuntime exampleConfig exampleDriver (select1 None (Some (Finite (- 1)))) emptyWorld)
       = Inr \<lparr>rows = [JNum (Finite 1), JNum (Finite 2)], rowCount = Some (Finite (- 1))\<rparr>"
  by code_simp

section \<open>Catalog and dispatcher\<close>

subsection \<open>Catalog\<close>

lemma collectFields_eq:
  "collectFields shape (props, req) =
     (props @ map (\<lambda>(key, field). (key, convertZodType field)) shape,
      req @ map fst (filter (\<lambda>(key, field). defaultValue field = None) shape))"
  by (induction shape arbitrary: props req) auto

lemma required_zodToJsonSchema:
  "requiredKeys (zodToJsonSchema shape) =
     map fst (filter (\<lambda>(key, field). defaultValue field = None) shape)"
  by (simp add: zodToJsonSchema_def collectFields_eq requiredKeys_def)

lemma defaultValue_None_iff: "defaultValue field = None \<longleftrightarrow> (\<forall>inner d. field \<noteq> ZodDefault inner d)"
  by (cases field) simp_all

text \<open>
  Claim C9. For a registered tool, the catalog entry is \<open>zodToJsonSchema\<close> of its schema,
  and a key of the schema (an object, so with distinct keys) is in the \<open>required\<close> array
  exactly when its field has no default value, that is, when the field is not a
  \<open>ZodDefault\<close>. In particular a field that is optional without a default is listed as
  required, although the schema library accepts the key's absence.
\<close>

theorem catalog_required_fields:
  assumes tool: "(name, t) \<in> set tools"
    and keys: "distinct (map fst (schema t))"
    and field: "(key, field) \<in> set (schema t)"
  shows "(name, zodToJsonSchema (schema t)) \<in> set (listTools tools)
         \<and> (key \<in> set (requiredKeys (zodToJsonSchema (schema t))) \<longleftrightarrow> defaultValue field = None)
         \<and> (defaultValue field = None \<longleftrightarrow> (\<forall>inner d. field \<noteq> ZodDefault inner d))
         \<and> (field = ZodOptional inner \<longrightarrow>
               key \<in> set (requiredKeys (zodToJsonSchema (schema t)))
               \<and> acceptsMissing field = Some True)"
proof -
  have a: "(name, zodToJsonSchema (schema t)) \<in> set (listTools tools)"
    using tool by (force simp: listTools_def)
  have b: "key \<in> set (requiredKeys (zodToJsonSchema (schema t))) \<longleftrightarrow> defaultValue field = None"
  proof
    assume "key \<in> set (requiredKeys (zodToJsonSchema (schema t)))"
    then obtain f where f: "(key, f) \<in> set (schema t)" "defaultValue f = None"
      by (auto simp: required_zodToJsonSchema)
    from keys f(1) field have "f = field"
      by (meson eq_key_imp_eq_value)
    with f show "defaultValue field = None" by simp
  next
    assume "defaultValue field = None"
    with field show "key \<in> set (requiredKeys (zodToJsonSchema (schema t)))"
      by (force simp: required_zodToJsonSchema)
  qed
  from a b defaultValue_None_iff [of field] show ?thesis
    by auto
qed

theorem catalog_required_fields_witness:
  "requiredKeys (zodToJsonSchema (schema exampleTool)) = [''pattern'', ''table'']
   \<and> (''listTables'', zodToJsonSchema (schema exampleTool)) \<in> set (listTools exampleTools)
   \<and> ''pattern'' \<in> set (requiredKeys (zodToJsonSchema (schema exampleTool)))
   \<and> acceptsMissing (ZodOptional ZodString) = Some True"
proof -
  have tool: "(''listTables'', exampleTool) \<in> set exampleTools"
    by (simp add: exampleTools_def)
  have keys: "distinct (map fst (schema exampleTool))"
    by (simp add: exampleTool_def)
  have field: "(''pattern'', ZodOptional ZodString) \<in> set (schema exampleTool)"
    by (simp add: exampleTool_def)
  have r: "requiredKeys (zodToJsonSchema (schema exampleTool)) = [''pattern'', ''table'']"
    by code_simp
  from catalog_required_fields [OF tool keys field, of ZodString] r show ?thesis
    by simp
qed

subsection \<open>Dispatcher\<close>

lemma begin_step_fields [simp]:
  "limiter (begin_step s srv) = limiter srv"
  "steps (begin_step s srv) = steps srv @ [s]"
  "entries (begin_step s srv) = entries srv"
  by (simp_all add: begin_step_def)

lemma logger_fields [simp]:
  "limiter (logger lv t msg srv) = limiter srv"
  "steps (logger lv t msg srv) = steps srv"
  by (simp_all add: logger_def)

lemma executeTool_outcome:
  "fst (executeTool tools name a srv) =
     (case getTool tools name of
        None \<Rightarrow> Inl (ToolNotFound name)
      | Some t \<Rightarrow> (case parse t a of Inl e \<Rightarrow> Inl e | Inr v \<Rightarrow> handler t v))
   \<and> limiter (snd (executeTool tools name a srv)) = limiter srv
   \<and> steps (snd (executeTool tools name a srv)) =
       steps srv @ (case getTool tools name of
                      None \<Rightarrow> [Lookup]
                    | Some t \<Rightarrow> (case parse t a of
                                   Inl e \<Rightarrow> [Lookup, Validate]
                                 | Inr v \<Rightarrow> [Lookup, Validate, Execute]))"
  by (auto simp: executeTool_def Let_def split: option.splits sum.splits)

lemma callTool_outcome:
  "fst (callTool rt tools now name args srv) =
     (case snd (outcome tools now name args srv) of
        Inr result \<Rightarrow> successResult rt result
      | Inl e \<Rightarrow> errorResult rt e name)
   \<and> limiter (snd (callTool rt tools now name args srv)) = snd (checkLimit now (limiter srv))
   \<and> steps (snd (callTool rt tools now name args srv)) =
       steps srv @ fst (outcome tools now name args srv)"
proof -
  obtain checked rl where cl: "checkLimit now (limiter srv) = (checked, rl)"
    by (cases "checkLimit now (limiter srv)") auto
  let ?srv1 = "(begin_step RateCheck (logger LevelInfo ''mcp'' (''Tool called: '' @ name) srv))
                 \<lparr>limiter := rl\<rparr>"
  show ?thesis
  proof (cases checked)
    case (Inl e)
    with cl show ?thesis
      by (simp add: callTool_def outcome_def Let_def)
  next
    case (Inr u)
    obtain r srv2 where ex: "executeTool tools name (argsOrEmpty args) ?srv1 = (r, srv2)"
      by (cases "executeTool tools name (argsOrEmpty args) ?srv1") auto
    from executeTool_outcome [of tools name "argsOrEmpty args" ?srv1] ex
    have r: "r = (case getTool tools name of
                    None \<Rightarrow> Inl (ToolNotFound name)
                  | Some t \<Rightarrow> (case parse t (argsOrEmpty args) of
                                 Inl e \<Rightarrow> Inl e | Inr v \<Rightarrow> handler t v))"
      and l: "limiter srv2 = rl"
      and s: "steps srv2 = steps srv @ [RateCheck] @
                (case getTool tools name of
                      None \<Rightarrow> [Lookup]
                    | Some t \<Rightarrow> (case parse t (argsOrEmpty args) of
                                   Inl e \<Rightarrow> [Lookup, Validate]
                                 | Inr v \<Rightarrow> [Lookup, Validate, Execute]))"
      by simp_all
    have "fst (callTool rt tools now name args srv) =
            (case r of Inr result \<Rightarrow> successResult rt result | Inl e \<Rightarrow> errorResult rt e name)
          \<and> limiter (snd (callTool rt tools now name args srv)) = limiter srv2
          \<and> steps (snd (callTool rt tools now name args srv)) = steps srv2"
      using cl Inr ex
      by (cases r) (simp_all add: callTool_def Let_def argsOrEmpty_def)
    with cl Inr r l s show ?thesis
      by (auto simp: outcome_def split: option.splits sum.splits)
  qed
qed

lemma outcome_steps_cases:
  "fst (outcome tools now name args srv) \<in>
     {[RateCheck], [RateCheck, Lookup], [RateCheck, Lookup, Validate],
      [RateCheck, Lookup, Validate, Execute]}"
  by (simp add: outcome_def split: sum.splits option.splits)

lemma checkLimit_consumes:
  assumes "enabled rl" and "fst (checkLimit now rl) = Inr ()"
  shows "requests (snd (checkLimit now rl)) =
           filter (\<lambda>timestamp. timestamp > now - windowMs rl) (requests rl) @ [now]"
  using assms by (simp add: checkLimit_def Let_def split: if_splits)

text \<open>
  Claim C1 (amended: the rate-limit check comes first). The operations of an invocation
  occur in the order rate-limit check, tool-name lookup, schema validation, handler
  execution, and stop at the first that fails. The limiter is left as \<open>checkLimit\<close>
  leaves it, whatever follows: an invocation that the limiter rejects does nothing else;
  one with an unknown tool name stops after the lookup and one with invalid arguments
  after the validation, neither runs the handler, and both have consumed a slot when the
  limiter is enabled and admitted them.
\<close>

theorem callTool_order:
  "steps (snd (callTool rt tools now name args srv)) = steps srv @ fst (outcome tools now name args srv)
   \<and> fst (outcome tools now name args srv) \<in>
        {[RateCheck], [RateCheck, Lookup], [RateCheck, Lookup, Validate],
         [RateCheck, Lookup, Validate, Execute]}
   \<and> limiter (snd (callTool rt tools now name args srv)) = snd (checkLimit now (limiter srv))
   \<and> (isl (fst (checkLimit now (limiter srv))) \<longrightarrow>
         fst (outcome tools now name args srv) = [RateCheck])
   \<and> (fst (checkLimit now (limiter srv)) = Inr () \<and> getTool tools name = None \<longrightarrow>
         fst (outcome tools now name args srv) = [RateCheck, Lookup])
   \<and> (fst (checkLimit now (limiter srv)) = Inr () \<and> getTool tools name = Some t
        \<and> isl (parse t (argsOrEmpty args)) \<longrightarrow>
         fst (outcome tools now name args srv) = [RateCheck, Lookup, Validate])
   \<and> (fst (checkLimit now (limiter srv)) = Inr () \<and> getTool tools name = Some t
        \<and> \<not> isl (parse t (argsOrEmpty args)) \<longrightarrow>
         fst (outcome tools now name args srv) = [RateCheck, Lookup, Validate, Execute])
   \<and> (enabled (limiter srv) \<and> fst (checkLimit now (limiter srv)) = Inr () \<longrightarrow>
         requests (limiter (snd (callTool rt tools now name args srv))) =
           filter (\<lambda>timestamp. timestamp > now - windowMs (limiter srv)) (requests (limiter srv))
             @ [now])"
proof -
  note co = callTool_outcome [of rt tools now name args srv]
  have a: "isl (fst (checkLimit now (limiter srv))) \<longrightarrow>
         fst (outcome tools now name args srv) = [RateCheck]"
    by (auto simp: outcome_def split: sum.splits)
  have b: "fst (checkLimit now (limiter srv)) = Inr () \<and> getTool tools name = None \<longrightarrow>
         fst (outcome tools now name args srv) = [RateCheck, Lookup]"
    by (simp add: outcome_def)
  have c: "fst (checkLimit now (limiter srv)) = Inr () \<and> getTool tools name = Some t
        \<and> isl (parse t (argsOrEmpty args)) \<longrightarrow>
         fst (outcome tools now name args srv) = [RateCheck, Lookup, Validate]"
    by (auto simp: outcome_def split: sum.splits)
  have d: "fst (checkLimit now (limiter srv)) = Inr () \<and> getTool tools name = Some t
        \<and> \<not> isl (parse t (argsOrEmpty args)) \<longrightarrow>
         fst (outcome tools now name args srv) = [RateCheck, Lookup, Validate, Execute]"
    by (auto simp: outcome_def split: sum.splits)
  have e: "enabled (limiter srv) \<and> fst (checkLimit now (limiter srv)) = Inr () \<longrightarrow>
         requests (limiter (snd (callTool rt tools now name args srv))) =
           filter (\<lambda>timestamp. timestamp > now - windowMs (limiter srv)) (requests (limiter srv))
             @ [now]"
    using co by (simp add: checkLimit_consumes)
  from co outcome_steps_cases [of tools now name args srv] a b c d e show ?thesis
    by blast
qed

theorem callTool_order_witness:
  "steps (snd (callTool exampleRuntime exampleTools 0 ''listTables'' None exampleServer))
     = [RateCheck, Lookup, Validate, Execute]
   \<and> steps (snd (callTool exampleRuntime exampleTools 0 ''listTables'' (Some JNull) exampleServer))
     = [RateCheck, Lookup, Validate]
   \<and> requests (limiter (snd (callTool exampleRuntime exampleTools 0 ''listTables'' (Some JNull)
                                exampleServer))) = [0]"
proof -
  have lim: "fst (checkLimit 0 (limiter exampleServer)) = Inr ()" "enabled (limiter exampleServer)"
    by (simp_all add: exampleServer_def checkLimit_def newRateLimiter_def)
  have tool: "getTool exampleTools ''listTables'' = Some exampleTool"
    by (simp add: getTool_def exampleTools_def)
  have ok: "\<not> isl (parse exampleTool (argsOrEmpty None))"
    by (simp add: exampleTool_def argsOrEmpty_def)
  have bad: "isl (parse exampleTool (argsOrEmpty (Some JNull)))"
    by (simp add: exampleTool_def argsOrEmpty_def)
  have st: "steps exampleServer = []" "requests (snd (checkLimit 0 (limiter exampleServer))) = [0]"
    by (simp_all add: exampleServer_def checkLimit_def newRateLimiter_def)
  from callTool_order [of exampleRuntime exampleTools 0 "''listTables''" None exampleServer exampleTool]
       callTool_order [of exampleRuntime exampleTools 0 "''listTables''" "Some JNull" exampleServer
         exampleTool]
       lim tool ok bad st
  show ?thesis by simp
qed

text \<open>
  Claim C1 as stated puts the lookup and the validation before the rate-limit check. With
  one request allowed per window, an invocation of an unknown tool records its timestamp,
  and the next invocation in the window is rejected by the limiter.
\<close>

theorem callTool_unknown_tool_counterexample:
  "getTool exampleTools ''nope'' = None
   \<and> requests (limiter exampleServer) = []
   \<and> steps (snd (callTool exampleRuntime exampleTools 0 ''nope'' None exampleServer))
       = [RateCheck, Lookup]
   \<and> requests (limiter (snd (callTool exampleRuntime exampleTools 0 ''nope'' None exampleServer)))
       = [0]
   \<and> steps (snd (callTool exampleRuntime exampleTools 1 ''listTables'' None
                    (snd (callTool exampleRuntime exampleTools 0 ''nope'' None exampleServer))))
       = [RateCheck, Lookup, RateCheck]"
  by code_simp

text \<open>
  Claim C8. Every invocation returns an envelope with exactly one item of type \<open>text\<close>.
  When the handler returns \<open>result\<close>, the text is the serialization of \<open>result\<close> and
  \<open>isError\<close> is absent. On every failure \<open>isError\<close> is set and the text is the
  serialization of the object whose \<open>error\<close> field is the message of the error thrown and
  whose \<open>tool\<close> field is the invoked name: the limiter's error when the rate limit is
  exceeded, the not-found error for an unknown tool, the schema library's error when
  validation fails, and the handler's own error when the handler throws.
\<close>

theorem callTool_envelope:
  "(fst (checkLimit now (limiter srv)) = Inl e \<longrightarrow>
      fst (callTool rt tools now name args srv) =
        \<lparr>content = [\<lparr>contentType = ''text'',
                      contentText = stringify rt (JObj [(''error'', JStr (messageOf rt e)),
                                                        (''tool'', JStr name)])\<rparr>],
         isError = Some True\<rparr>)
   \<and> (fst (checkLimit now (limiter srv)) = Inr () \<and> getTool tools name = None \<longrightarrow>
      fst (callTool rt tools now name args srv) =
        \<lparr>content = [\<lparr>contentType = ''text'',
                      contentText = stringify rt (JObj [(''error'', JStr (messageOf rt (ToolNotFound name))),
                                                        (''tool'', JStr name)])\<rparr>],
         isError = Some True\<rparr>)
   \<and> (fst (checkLimit now (limiter srv)) = Inr () \<and> getTool tools name = Some t
        \<and> parse t (argsOrEmpty args) = Inl e \<longrightarrow>
      fst (callTool rt tools now name args srv) =
        \<lparr>content = [\<lparr>contentType = ''text'',
                      contentText = stringify rt (JObj [(''error'', JStr (messageOf rt e)),
                                                        (''tool'', JStr name)])\<rparr>],
         isError = Some True\<rparr>)
   \<and> (fst (checkLimit now (limiter srv)) = Inr () \<and> getTool tools name = Some t
        \<and> parse t (argsOrEmpty args) = Inr v \<and> handler t v = Inl e \<longrightarrow>
      fst (callTool rt tools now name args srv) =
        \<lparr>content = [\<lparr>contentType = ''text'',
                      contentText = stringify rt (JObj [(''error'', JStr (messageOf rt e)),
                                                        (''tool'', JStr name)])\<rparr>],
         isError = Some True\<rparr>)
   \<and> (fst (checkLimit now (limiter srv)) = Inr () \<and> getTool tools name = Some t
        \<and> parse t (argsOrEmpty args) = Inr v \<and> handler t v = Inr result \<longrightarrow>
      fst (callTool rt tools now name args srv) =
        \<lparr>content = [\<lparr>contentType = ''text'', contentText = stringify rt result\<rparr>],
         isError = None\<rparr>)
   \<and> length (content (fst (callTool rt tools now name args srv))) = 1
   \<and> map contentType (content (fst (callTool rt tools now name args srv))) = [''text'']
   \<and> (isError (fst (callTool rt tools now name args srv)) = None
        \<or> isError (fst (callTool rt tools now name args srv)) = Some True)"
proof -
  note co = callTool_outcome [of rt tools now name args srv]
  then have a: "fst (callTool rt tools now name args srv) =
     (case snd (outcome tools now name args srv) of
        Inr result \<Rightarrow> successResult rt result
      | Inl e \<Rightarrow> errorResult rt e name)"
    by simp
  have c: "fst (checkLimit now (limiter srv)) = Inl e \<longrightarrow>
         fst (callTool rt tools now name args srv) = errorResult rt e name"
    using a by (simp add: outcome_def)
  have d: "fst (checkLimit now (limiter srv)) = Inr () \<and> getTool tools name = None \<longrightarrow>
         fst (callTool rt tools now name args srv) = errorResult rt (ToolNotFound name) name"
    using a by (simp add: outcome_def)
  have f: "fst (checkLimit now (limiter srv)) = Inr () \<and> getTool tools name = Some t
        \<and> parse t (argsOrEmpty args) = Inl e \<longrightarrow>
         fst (callTool rt tools now name args srv) = errorResult rt e name"
    using a by (simp add: outcome_def)
  have g: "fst (checkLimit now (limiter srv)) = Inr () \<and> getTool tools name = Some t
        \<and> parse t (argsOrEmpty args) = Inr v \<and> handler t v = Inl e \<longrightarrow>
         fst (callTool rt tools now name args srv) = errorResult rt e name"
    using a by (simp add: outcome_def)
  have h: "fst (checkLimit now (limiter srv)) = Inr () \<and> getTool tools name = Some t
        \<and> parse t (argsOrEmpty args) = Inr v \<and> handler t v = Inr result \<longrightarrow>
         fst (callTool rt tools now name args srv) = successResult rt result"
    using a by (simp add: outcome_def)
  have shape: "length (content (fst (callTool rt tools now name args srv))) = 1
     \<and> map contentType (content (fst (callTool rt tools now name args srv))) = [''text'']
     \<and> (isError (fst (callTool rt tools now name args srv)) = None
          \<or> isError (fst (callTool rt tools now name args srv)) = Some True)"
  proof (cases "snd (outcome tools now name args srv)")
    case (Inl err)
    with a show ?thesis by (simp add: errorResult_def)
  next
    case (Inr res)
    with a show ?thesis by (simp add: successResult_def)
  qed
  from c d f g h shape show ?thesis
    unfolding errorResult_def successResult_def by blast
qed

theorem callTool_envelope_witness:
  "fst (callTool exampleRuntime exampleTools 0 ''listTables'' None exampleServer)
     = \<lparr>content = [\<lparr>contentType = ''text'',
                     contentText = ''{table: orders, schema: public}''\<rparr>],
        isError = None\<rparr>
   \<and> fst (callTool exampleRuntime exampleTools 0 ''listTables'' (Some JNull) exampleServer)
     = \<lparr>content = [\<lparr>contentType = ''text'',
                     contentText = ''{error: Expected object, tool: listTables}''\<rparr>],
        isError = Some True\<rparr>
   \<and> fst (callTool exampleRuntime exampleTools 0 ''nope'' None exampleServer)
     = \<lparr>content = [\<lparr>contentType = ''text'',
                     contentText = ''{error: Tool nope not found, tool: nope}''\<rparr>],
        isError = Some True\<rparr>"
proof -
  have lim: "fst (checkLimit 0 (limiter exampleServer)) = Inr ()"
    by (simp add: exampleServer_def checkLimit_def newRateLimiter_def)
  have none: "getTool exampleTools ''nope'' = None"
    by (simp add: getTool_def exampleTools_def)
  have tool: "getTool exampleTools ''listTables'' = Some exampleTool"
    by (simp add: getTool_def exampleTools_def)
  have run: "parse exampleTool (argsOrEmpty None) = Inr (JObj [])"
    "handler exampleTool (JObj [])
       = Inr (JObj [(''table'', JStr ''orders''), (''schema'', JStr ''public'')])"
    by (simp_all add: exampleTool_def argsOrEmpty_def)
  have bad: "parse exampleTool (argsOrEmpty (Some JNull)) = Inl (Failure ''Expected object'')"
    by (simp add: exampleTool_def argsOrEmpty_def)
  have s: "stringify exampleRuntime (JObj [(''table'', JStr ''orders''), (''schema'', JStr ''public'')])
             = ''{table: orders, schema: public}''"
    by (simp add: exampleRuntime_def)
  have e1: "stringify exampleRuntime
              (JObj [(''error'', JStr (messageOf exampleRuntime (Failure ''Expected object''))),
                     (''tool'', JStr ''listTables'')])
             = ''{error: Expected object, tool: listTables}''"
    by (simp add: exampleRuntime_def)
  have e2: "stringify exampleRuntime
              (JObj [(''error'', JStr (messageOf exampleRuntime (ToolNotFound ''nope''))),
                     (''tool'', JStr ''nope'')])
             = ''{error: Tool nope not found, tool: nope}''"
    by (simp add: exampleRuntime_def)
  from callTool_envelope [where rt = exampleRuntime and tools = exampleTools and now = 0
         and name = "''listTables''" and args = None and srv = exampleServer
         and t = exampleTool and v = "JObj []"
         and result = "JObj [(''table'', JStr ''orders''), (''schema'', JStr ''public'')]"]
       lim tool run
  have a: "fst (callTool exampleRuntime exampleTools 0 ''listTables'' None exampleServer)
     = \<lparr>content = [\<lparr>contentType = ''text'',
            contentText = stringify exampleRuntime
              (JObj [(''table'', JStr ''orders''), (''schema'', JStr ''public'')])\<rparr>],
        isError = None\<rparr>"
    by blast
  from callTool_envelope [where rt = exampleRuntime and tools = exampleTools and now = 0
         and name = "''listTables''" and args = "Some JNull" and srv = exampleServer
         and t = exampleTool and e = "Failure ''Expected object''"]
       lim tool bad
  have b: "fst (callTool exampleRuntime exampleTools 0 ''listTables'' (Some JNull) exampleServer)
     = \<lparr>content = [\<lparr>contentType = ''text'',
            contentText = stringify exampleRuntime
              (JObj [(''error'', JStr (messageOf exampleRuntime (Failure ''Expected object''))),
                     (''tool'', JStr ''listTables'')])\<rparr>],
        isError = Some True\<rparr>"
    by blast
  from callTool_envelope [where rt = exampleRuntime and tools = exampleTools and now = 0
         and name = "''nope''" and args = None and srv = exampleServer]
       lim none
  have c: "fst (callTool exampleRuntime exampleTools 0 ''nope'' None exampleServer)
     = \<lparr>content = [\<lparr>contentType = ''text'',
            contentText = stringify exampleRuntime
              (JObj [(''error'', JStr (messageOf exampleRuntime (ToolNotFound ''nope''))),
                     (''tool'', JStr ''nope'')])\<rparr>],
        isError = Some True\<rparr>"
    by blast
  from a b c show ?thesis
    unfolding s e1 e2 by blast
qed

end
